theory Spec2Isabelle
  imports Main "HOL-Library.AList" "HOL-Library.Multiset"
begin

section \<open>Values of the script\<close>

text \<open>
  The script \<^verbatim>\<open>src/code.js\<close> is Google Apps Script. The values it computes with are
  cell contents: text and numbers. Text is a \<^typ>\<open>string\<close> of ASCII characters, a number
  is a whole number (\<^typ>\<open>int\<close>; the script's numbers are doubles, which add whole
  numbers exactly below \<open>2^53\<close>). \<^verbatim>\<open>undefined\<close> and \<^verbatim>\<open>NaN\<close> are values too, because
  reading a missing property yields the first and adding to it the second.
\<close>

datatype jsval = JUndefined | JNaN | JNum int | JStr string

subsection \<open>\<^verbatim>\<open>toLowerCase\<close> and \<^verbatim>\<open>toUpperCase\<close> on ASCII text\<close>

definition lower_char :: "char \<Rightarrow> char" where
  "lower_char c =
     (case map_of (zip ''ABCDEFGHIJKLMNOPQRSTUVWXYZ'' ''abcdefghijklmnopqrstuvwxyz'') c of
        Some d \<Rightarrow> d | None \<Rightarrow> c)"

definition upper_char :: "char \<Rightarrow> char" where
  "upper_char c =
     (case map_of (zip ''abcdefghijklmnopqrstuvwxyz'' ''ABCDEFGHIJKLMNOPQRSTUVWXYZ'') c of
        Some d \<Rightarrow> d | None \<Rightarrow> c)"

definition toLowerCase :: "string \<Rightarrow> string" where
  "toLowerCase s = map lower_char s"

definition toUpperCase :: "string \<Rightarrow> string" where
  "toUpperCase s = map upper_char s"

subsection \<open>Conversions between numbers and text\<close>

fun digits :: "nat \<Rightarrow> string" where
  "digits n =
     (if n < 10 then [''0123456789'' ! n]
      else digits (n div 10) @ [''0123456789'' ! (n mod 10)])"

declare digits.simps [simp del]

definition show_int :: "int \<Rightarrow> string" where
  "show_int n = (if n < 0 then CHR ''-'' # digits (nat (- n)) else digits (nat n))"

definition digit_value :: "char \<Rightarrow> nat option" where
  "digit_value c = map_of (zip ''0123456789'' [0, 1, 2, 3, 4, 5, 6, 7, 8, 9]) c"

fun parse_digits :: "string \<Rightarrow> nat \<Rightarrow> nat option" where
  "parse_digits [] acc = Some acc"
| "parse_digits (c # cs) acc =
     (case digit_value c of None \<Rightarrow> None | Some d \<Rightarrow> parse_digits cs (10 * acc + d))"

text \<open>
  \<^verbatim>\<open>Number(s)\<close> for a text \<open>s\<close>; \<open>None\<close> is \<^verbatim>\<open>NaN\<close>. The empty text is 0, a run of
  decimal digits with an optional minus sign is its value. Every text the script builds
  from whole numbers by \<^verbatim>\<open>+\<close> is made of digits and minus signs, and on those this is what
  JavaScript computes; other numeric spellings (blanks, a plus sign, a decimal point, an
  exponent, hexadecimal) do not arise and are not covered.
\<close>

definition StringToNumber :: "string \<Rightarrow> int option" where
  "StringToNumber s =
     (case s of
        [] \<Rightarrow> Some 0
      | c # cs \<Rightarrow>
          if c = CHR ''-''
          then (if cs = [] then None else map_option (\<lambda>n. - int n) (parse_digits cs 0))
          else map_option int (parse_digits s 0))"

fun ToNumber :: "jsval \<Rightarrow> int option" where
  "ToNumber JUndefined = None"
| "ToNumber JNaN = None"
| "ToNumber (JNum n) = Some n"
| "ToNumber (JStr s) = StringToNumber s"

fun ToString :: "jsval \<Rightarrow> string" where
  "ToString JUndefined = ''undefined''"
| "ToString JNaN = ''NaN''"
| "ToString (JNum n) = show_int n"
| "ToString (JStr s) = s"

fun is_string :: "jsval \<Rightarrow> bool" where
  "is_string (JStr s) = True"
| "is_string v = False"

subsection \<open>The operators \<^verbatim>\<open>+\<close>, \<^verbatim>\<open><\<close>, \<^verbatim>\<open>>\<close>, \<^verbatim>\<open>>=\<close>, \<^verbatim>\<open>==\<close> and \<^verbatim>\<open>!=\<close>\<close>

definition js_add :: "jsval \<Rightarrow> jsval \<Rightarrow> jsval" where
  "js_add a b =
     (if is_string a \<or> is_string b then JStr (ToString a @ ToString b)
      else (case ToNumber a of
              None \<Rightarrow> JNaN
            | Some x \<Rightarrow> (case ToNumber b of None \<Rightarrow> JNaN | Some y \<Rightarrow> JNum (x + y))))"

fun string_less :: "string \<Rightarrow> string \<Rightarrow> bool" where
  "string_less [] [] = False"
| "string_less [] (y # ys) = True"
| "string_less (x # xs) [] = False"
| "string_less (x # xs) (y # ys) =
     ((of_char x :: nat) < of_char y \<or> (x = y \<and> string_less xs ys))"

text \<open>
  The relational comparison: two texts compare by code units, anything else as numbers,
  and a comparison with \<^verbatim>\<open>NaN\<close> is undefined (\<open>None\<close>), which every operator reads as
  false.
\<close>

definition js_less :: "jsval \<Rightarrow> jsval \<Rightarrow> bool option" where
  "js_less a b =
     (if is_string a \<and> is_string b then Some (string_less (ToString a) (ToString b))
      else (case ToNumber a of
              None \<Rightarrow> None
            | Some x \<Rightarrow> (case ToNumber b of None \<Rightarrow> None | Some y \<Rightarrow> Some (x < y))))"

definition js_lt :: "jsval \<Rightarrow> jsval \<Rightarrow> bool" where
  "js_lt a b = (js_less a b = Some True)"

definition js_gt :: "jsval \<Rightarrow> jsval \<Rightarrow> bool" where
  "js_gt a b = (js_less b a = Some True)"

definition js_ge :: "jsval \<Rightarrow> jsval \<Rightarrow> bool" where
  "js_ge a b = (js_less a b = Some False)"

definition js_eq :: "jsval \<Rightarrow> jsval \<Rightarrow> bool" where
  "js_eq a b =
     (if a = JUndefined \<or> b = JUndefined then a = b
      else if is_string a \<and> is_string b then ToString a = ToString b
      else (case ToNumber a of
              None \<Rightarrow> False
            | Some x \<Rightarrow> (case ToNumber b of None \<Rightarrow> False | Some y \<Rightarrow> x = y)))"

definition js_neq :: "jsval \<Rightarrow> jsval \<Rightarrow> bool" where
  "js_neq a b = (\<not> js_eq a b)"

subsection \<open>Objects used as dictionaries\<close>

text \<open>
  \<^verbatim>\<open>names\<close> and \<^verbatim>\<open>points\<close> are plain objects keyed by lower-cased email. An object keeps
  its keys in the order of their first assignment, and \<^verbatim>\<open>for ... in\<close> enumerates them in
  that order (keys that spell an array index, and the inherited \<^verbatim>\<open>constructor\<close> and
  \<^verbatim>\<open>__proto__\<close>, behave differently and are not emails). Assigning to a key that
  exists replaces the value in place, assigning to a new key appends it: this is
  \<^const>\<open>AList.update\<close>. Reading a key that is absent yields \<^verbatim>\<open>undefined\<close>.
\<close>

type_synonym js_object = "(string \<times> jsval) list"

definition js_get :: "js_object \<Rightarrow> string \<Rightarrow> jsval" where
  "js_get obj k = (case map_of obj k of None \<Rightarrow> JUndefined | Some v \<Rightarrow> v)"

definition js_set :: "js_object \<Rightarrow> string \<Rightarrow> jsval \<Rightarrow> js_object" where
  "js_set obj k v = AList.update k v obj"

section \<open>Spreadsheets\<close>

text \<open>
  An event's spreadsheet has two tabs. \<^verbatim>\<open>Responses\<close> holds, from row 2 on, the name in
  column A, the email in column B and the additional points in column D; cell F2 holds
  the event's default points. \<^verbatim>\<open>Form Responses 1\<close> holds the name in column B and the
  email in column C. A tab is the list of its rows from row 2 on; every row after the
  list is blank. Column F belongs to the row, because deleting a row deletes all its
  cells: F2 is column F of the first row of the list. A cell of column D or F is blank or
  holds a whole number; a blank cell reads as the empty text.
\<close>

datatype cell = Blank | Num int

fun getValue :: "cell \<Rightarrow> jsval" where
  "getValue Blank = JStr []"
| "getValue (Num n) = JNum n"

record response_row =
  resp_A :: string
  resp_B :: string
  resp_D :: cell
  resp_F :: cell

record form_row =
  form_B :: string
  form_C :: string

text \<open>
  \<^verbatim>\<open>getSheetByName\<close> returns \<^verbatim>\<open>null\<close> for a tab that does not exist, and the first use of
  that result throws a TypeError: a tab is \<open>None\<close> then. A file that cannot be opened at
  all behaves, in what is modelled here, like one without tabs: the script stops at the
  first access, before it writes anything to that file.
\<close>

record spreadsheet =
  file_name :: string
  form_responses_1 :: "form_row list option"
  responses :: "response_row list option"

datatype error = TypeError

record response_set =
  names :: js_object
  points :: js_object

definition range_F2 :: "response_row list \<Rightarrow> cell" where
  "range_F2 rows = (case rows of [] \<Rightarrow> Blank | r # rs \<Rightarrow> resp_F r)"

section \<open>\<^verbatim>\<open>getResponsesFromEvent\<close>\<close>

text \<open>
  The loop of lines 347 to 364, from the row at \<^verbatim>\<open>index\<close> on: it stops at the first row
  whose email is blank, and the rows after the list are blank.
\<close>

fun responses_loop :: "jsval \<Rightarrow> response_row list \<Rightarrow> response_set \<Rightarrow> response_set" where
  "responses_loop defaultPoints [] rs = rs"
| "responses_loop defaultPoints (r # rows) rs =
     (let name = JStr (resp_A r);
          email = toLowerCase (resp_B r);
          additionalPoints = getValue (resp_D r)
      in if email \<noteq> []
         then responses_loop defaultPoints rows
                \<lparr>names = js_set (names rs) email name,
                 points = js_set (points rs) email
                   (js_add defaultPoints
                      (if js_neq additionalPoints (JStr []) then additionalPoints else JNum 0))\<rparr>
         else rs)"

definition getResponsesFromEvent :: "response_row list option \<Rightarrow> error + response_set" where
  "getResponsesFromEvent sheet =
     (case sheet of
        None \<Rightarrow> Inl TypeError
      | Some rows \<Rightarrow>
          Inr (responses_loop (getValue (range_F2 rows)) rows \<lparr>names = [], points = []\<rparr>))"

section \<open>\<^verbatim>\<open>updateMemberPoints\<close>\<close>

text \<open>
  The Sheets folder holds spreadsheets directly and in subfolders (one per month). The
  order of the lists is the order in which the Drive iterators hand the files out.
\<close>

record sheets_folder =
  folder_files :: "spreadsheet list"
  folder_subfolders :: "spreadsheet list list"

text \<open>Lines 218 to 232: the files of the folder, then those of each subfolder.\<close>

definition collect_ids :: "sheets_folder \<Rightarrow> spreadsheet list" where
  "collect_ids f = folder_files f @ concat (folder_subfolders f)"

text \<open>
  Lines 250 to 258, one round of \<^verbatim>\<open>for (const property in info.names)\<close>: an email that
  \<^verbatim>\<open>responseSet\<close> does not know is entered with the name and the points of \<^verbatim>\<open>info\<close>; for
  one it knows, only the points are added.
\<close>

definition merge_property :: "response_set \<Rightarrow> string \<Rightarrow> response_set \<Rightarrow> response_set" where
  "merge_property info property responseSet =
     (if js_eq (js_get (names responseSet) property) JUndefined
      then \<lparr>names = js_set (names responseSet) property (js_get (names info) property),
            points = js_set (points responseSet) property (js_get (points info) property)\<rparr>
      else responseSet
            \<lparr>points := js_set (points responseSet) property
               (js_add (js_get (points responseSet) property)
                  (js_get (points info) property))\<rparr>)"

text \<open>
  Lines 248 to 259: the first argument is what is left of the enumeration of the keys of
  \<^verbatim>\<open>info.names\<close>.
\<close>

fun merge_info :: "string list \<Rightarrow> response_set \<Rightarrow> response_set \<Rightarrow> response_set" where
  "merge_info [] info responseSet = responseSet"
| "merge_info (property # ps) info responseSet =
     merge_info ps info (merge_property info property responseSet)"

text \<open>
  Lines 235 to 260. \<^verbatim>\<open>ids.pop()\<close> takes the last id, so the loop runs through the ids
  from the last to the first: the argument is the reversed list of ids, its head the next
  id popped. \<^verbatim>\<open>responseSet\<close> is \<^verbatim>\<open>null\<close> (\<open>None\<close>) until the first spreadsheet is read.
\<close>

fun ids_loop :: "spreadsheet list \<Rightarrow> response_set option \<Rightarrow> error + response_set option" where
  "ids_loop [] responseSet = Inr responseSet"
| "ids_loop (sheet # ids) responseSet =
     (case getResponsesFromEvent (responses sheet) of
        Inl e \<Rightarrow> Inl e
      | Inr info \<Rightarrow>
          (case responseSet of
             None \<Rightarrow> ids_loop ids (Some info)
           | Some rs \<Rightarrow> ids_loop ids (Some (merge_info (map fst (names info)) info rs))))"

subsection \<open>The Member Points sheet\<close>

text \<open>
  The rows of the Member Points sheet from row 3 on (\<^verbatim>\<open>MEMBER_POINT_SHEET_OFFSET\<close>): the
  row at position \<open>i\<close> of the list is row \<open>i + 3\<close> of the sheet. Columns A, B and C hold
  name, total and email; the background is that of the cells A and B of the row. Rows
  after the list are blank and white.
\<close>

datatype color =
  WHITE | DEFAULT_MEMBER_COLOR | ACTIVE_MEMBER_COLOR | INVOLVED_MEMBER_COLOR
  | MOST_INVOLVED_MEMBER_COLOR

record member_row =
  mp_A :: jsval
  mp_B :: jsval
  mp_C :: jsval
  mp_background :: color

definition blank_row :: member_row where
  "blank_row = \<lparr>mp_A = JStr [], mp_B = JStr [], mp_C = JStr [], mp_background = WHITE\<rparr>"

definition row_update :: "nat \<Rightarrow> (member_row \<Rightarrow> member_row) \<Rightarrow> member_row list \<Rightarrow> member_row list" where
  "row_update i f sheet =
     (let s = sheet @ replicate (Suc i - length sheet) blank_row in s[i := f (s ! i)])"

text \<open>The row at position \<open>i\<close>, as \<^verbatim>\<open>getRange\<close> reads it.\<close>

definition row_at :: "member_row list \<Rightarrow> nat \<Rightarrow> member_row" where
  "row_at sheet i = (if i < length sheet then sheet ! i else blank_row)"

text \<open>Line 215: rows 3 to 1000 lose columns A and B and turn white; column C stays.\<close>

definition clear_A3_B1000 :: "member_row list \<Rightarrow> member_row list" where
  "clear_A3_B1000 sheet =
     map (\<lambda>r. r\<lparr>mp_A := JStr [], mp_B := JStr [], mp_background := WHITE\<rparr>) (take 998 sheet)
     @ drop 998 sheet"

text \<open>One round of the loop of lines 273 to 308, for row \<open>i\<close>.\<close>

definition write_row ::
  "string list \<Rightarrow> response_set \<Rightarrow> nat \<Rightarrow> member_row list \<times> jsval \<times> nat list
     \<Rightarrow> member_row list \<times> jsval \<times> nat list" where
  "write_row emails responseSet i st =
     (case st of (sheet, mx, indexes) \<Rightarrow>
        let total = js_get (points responseSet) (emails ! i);
            sheet1 = row_update i
              (\<lambda>r. r\<lparr>mp_A := js_get (names responseSet) (emails ! i),
                      mp_B := total, mp_C := JStr (emails ! i)\<rparr>) sheet;
            color = (if js_lt total (JNum 3) then DEFAULT_MEMBER_COLOR
                     else if js_lt total (JNum 15) then ACTIVE_MEMBER_COLOR
                     else INVOLVED_MEMBER_COLOR);
            sheet2 = row_update i (\<lambda>r. r\<lparr>mp_background := color\<rparr>) sheet1
        in if js_gt total mx then (sheet2, total, [i])
           else if js_eq total mx then (sheet2, mx, indexes @ [i])
           else (sheet2, mx, indexes))"

function write_loop ::
  "string list \<Rightarrow> response_set \<Rightarrow> nat \<Rightarrow> member_row list \<times> jsval \<times> nat list
     \<Rightarrow> member_row list \<times> jsval \<times> nat list" where
  "write_loop emails responseSet i st =
     (if i < length emails
      then write_loop emails responseSet (Suc i) (write_row emails responseSet i st)
      else st)"
  by pat_completeness auto
termination
  by (relation "measure (\<lambda>(emails, responseSet, i, st). length emails - i)") auto

declare write_loop.simps [simp del]

text \<open>Lines 311 to 318.\<close>

definition style_top :: "jsval \<Rightarrow> nat list \<Rightarrow> member_row list \<Rightarrow> member_row list" where
  "style_top mx indexes sheet =
     (if js_ge mx (JNum 15)
      then fold (\<lambda>idx s. row_update idx (\<lambda>r. r\<lparr>mp_background := MOST_INVOLVED_MEMBER_COLOR\<rparr>) s)
             indexes sheet
      else sheet)"

text \<open>Lines 269 to 318: the rows are written and coloured, then the top earners.\<close>

definition write_ledger :: "string list \<Rightarrow> response_set \<Rightarrow> member_row list \<Rightarrow> member_row list" where
  "write_ledger emails responseSet sheet =
     (case write_loop emails responseSet 0 (sheet, JNum 0, []) of
        (sheet1, mx, indexes) \<Rightarrow> style_top mx indexes sheet1)"

text \<open>
  The whole function up to line 318, as a change of the Member Points sheet; the result
  says whether the run threw. With no spreadsheet at all \<^verbatim>\<open>responseSet\<close> is still \<^verbatim>\<open>null\<close>
  at line 264, and reading \<^verbatim>\<open>responseSet.names\<close> throws. Lines 320 to 329 then sort the
  rows by column A (a rearrangement of whole rows by the spreadsheet's own collation),
  hide column C and stamp cell A1; the list here is the sheet before that sort.
\<close>

definition updateMemberPoints ::
  "sheets_folder \<Rightarrow> member_row list \<Rightarrow> error option \<times> member_row list" where
  "updateMemberPoints f memberSheet =
     (let sheet0 = clear_A3_B1000 memberSheet;
          ids = collect_ids f
      in case ids_loop (rev ids) None of
           Inl e \<Rightarrow> (Some e, sheet0)
         | Inr None \<Rightarrow> (Some TypeError, sheet0)
         | Inr (Some responseSet) \<Rightarrow>
             (None, write_ledger (map fst (names responseSet)) responseSet sheet0))"

section \<open>The Control Panel and the corrections\<close>

text \<open>
  \<^verbatim>\<open>SHEET\<close> is the Control Panel; each field is the content of the cell that the constant
  of the same name addresses (\<^verbatim>\<open>K4\<close>, \<^verbatim>\<open>K6\<close>, \<^verbatim>\<open>J3\<close> and so on). The font colour of the
  error cells is not modelled; the font size of \<^verbatim>\<open>USER_EVENTS_CELL\<close> is.
\<close>

record control_panel =
  OLD_EMAIL_CELL :: string
  NEW_EMAIL_CELL :: string
  EMAIL_ERROR_CELL :: string
  OLD_NAME_CELL :: string
  NEW_NAME_CELL :: string
  NAME_ERROR_CELL :: string
  DEL_NAME_CELL :: string
  DEL_EMAIL_CELL :: string
  DEL_ERROR_CELL :: string
  FIND_USER_CELL :: string
  USER_EVENTS_CELL :: string
  USER_EVENTS_FONT_SIZE :: nat

record world =
  SHEET :: control_panel
  SHEETS_FOLDER :: sheets_folder
  memberSheet :: "member_row list"

text \<open>
  \<^verbatim>\<open>fixEmail\<close>, \<^verbatim>\<open>fixName\<close> and \<^verbatim>\<open>deleteName\<close> run one operation over the files of the
  Sheets folder and then over the files of each subfolder. An exception ends the run
  where it is thrown: the files before it are changed, the files after it are not.
\<close>

fun each_sheet ::
  "(spreadsheet \<Rightarrow> error option \<times> spreadsheet) \<Rightarrow> spreadsheet list
     \<Rightarrow> error option \<times> spreadsheet list" where
  "each_sheet operation [] = (None, [])"
| "each_sheet operation (sheet # sheets) =
     (case operation sheet of
        (Some e, sheet') \<Rightarrow> (Some e, sheet' # sheets)
      | (None, sheet') \<Rightarrow>
          (case each_sheet operation sheets of (r, sheets') \<Rightarrow> (r, sheet' # sheets')))"

fun each_subfolder ::
  "(spreadsheet \<Rightarrow> error option \<times> spreadsheet) \<Rightarrow> spreadsheet list list
     \<Rightarrow> error option \<times> spreadsheet list list" where
  "each_subfolder operation [] = (None, [])"
| "each_subfolder operation (sheets # subfolders) =
     (case each_sheet operation sheets of
        (Some e, sheets') \<Rightarrow> (Some e, sheets' # subfolders)
      | (None, sheets') \<Rightarrow>
          (case each_subfolder operation subfolders of
             (r, subfolders') \<Rightarrow> (r, sheets' # subfolders')))"

definition each_file ::
  "(spreadsheet \<Rightarrow> error option \<times> spreadsheet) \<Rightarrow> sheets_folder
     \<Rightarrow> error option \<times> sheets_folder" where
  "each_file operation f =
     (case each_sheet operation (folder_files f) of
        (Some e, sheets') \<Rightarrow> (Some e, f\<lparr>folder_files := sheets'\<rparr>)
      | (None, sheets') \<Rightarrow>
          (case each_subfolder operation (folder_subfolders f) of
             (r, subfolders') \<Rightarrow>
               (r, \<lparr>folder_files = sheets', folder_subfolders = subfolders'\<rparr>)))"

subsection \<open>\<^verbatim>\<open>fixEmail\<close> and \<^verbatim>\<open>replaceEmailInSheet\<close>\<close>

text \<open>
  Each loop of \<^verbatim>\<open>replaceEmailInSheet\<close> walks down one column from row 2 and stops at the
  first blank email. The first argument reads the email of a row, the second writes it.
\<close>

fun replace_email_loop ::
  "('r \<Rightarrow> string) \<Rightarrow> (string \<Rightarrow> 'r \<Rightarrow> 'r) \<Rightarrow> string \<Rightarrow> string \<Rightarrow> 'r list \<Rightarrow> 'r list" where
  "replace_email_loop rd wr newEmail oldEmail [] = []"
| "replace_email_loop rd wr newEmail oldEmail (r # rows) =
     (let email = toLowerCase (rd r)
      in if email \<noteq> []
         then (if email = oldEmail then wr newEmail r else r)
              # replace_email_loop rd wr newEmail oldEmail rows
         else r # rows)"

definition replaceEmailInSheet ::
  "string \<Rightarrow> string \<Rightarrow> spreadsheet \<Rightarrow> error option \<times> spreadsheet" where
  "replaceEmailInSheet newEmail oldEmail sheet =
     (case form_responses_1 sheet of
        None \<Rightarrow> (Some TypeError, sheet)
      | Some form \<Rightarrow>
          (let sheet1 = sheet\<lparr>form_responses_1 :=
                 Some (replace_email_loop form_C (\<lambda>v r. r\<lparr>form_C := v\<rparr>) newEmail oldEmail form)\<rparr>
           in case responses sheet1 of
                None \<Rightarrow> (Some TypeError, sheet1)
              | Some rows \<Rightarrow>
                  (None, sheet1\<lparr>responses :=
                     Some (replace_email_loop resp_B (\<lambda>v r. r\<lparr>resp_B := v\<rparr>)
                             newEmail oldEmail rows)\<rparr>)))"

definition fixEmail :: "world \<Rightarrow> error option \<times> world" where
  "fixEmail w =
     (let oldEmail = toLowerCase (OLD_EMAIL_CELL (SHEET w));
          newEmail = toLowerCase (NEW_EMAIL_CELL (SHEET w))
      in if oldEmail = [] \<or> newEmail = []
         then (None, w\<lparr>SHEET := (SHEET w)\<lparr>EMAIL_ERROR_CELL := ''One of the fields is empty''\<rparr>\<rparr>)
         else (case each_file (replaceEmailInSheet newEmail oldEmail) (SHEETS_FOLDER w) of
                 (Some e, f) \<Rightarrow> (Some e, w\<lparr>SHEETS_FOLDER := f\<rparr>)
               | (None, f) \<Rightarrow>
                   (case updateMemberPoints f (memberSheet w) of
                      (Some e, ms) \<Rightarrow> (Some e, w\<lparr>SHEETS_FOLDER := f, memberSheet := ms\<rparr>)
                    | (None, ms) \<Rightarrow>
                        (None, w\<lparr>SHEETS_FOLDER := f, memberSheet := ms,
                                 SHEET := (SHEET w)\<lparr>OLD_EMAIL_CELL := [], NEW_EMAIL_CELL := []\<rparr>\<rparr>))))"

subsection \<open>\<^verbatim>\<open>fixName\<close> and \<^verbatim>\<open>replaceNameInSheet\<close>\<close>

fun replace_name_loop ::
  "('r \<Rightarrow> string) \<Rightarrow> (string \<Rightarrow> 'r \<Rightarrow> 'r) \<Rightarrow> string \<Rightarrow> string \<Rightarrow> 'r list \<Rightarrow> 'r list" where
  "replace_name_loop rd wr newName oldNameLower [] = []"
| "replace_name_loop rd wr newName oldNameLower (r # rows) =
     (let name = toLowerCase (rd r)
      in if name \<noteq> []
         then (if name = oldNameLower then wr newName r else r)
              # replace_name_loop rd wr newName oldNameLower rows
         else r # rows)"

definition replaceNameInSheet ::
  "string \<Rightarrow> string \<Rightarrow> spreadsheet \<Rightarrow> error option \<times> spreadsheet" where
  "replaceNameInSheet newName oldName sheet =
     (let oldNameLower = toLowerCase oldName
      in case form_responses_1 sheet of
           None \<Rightarrow> (Some TypeError, sheet)
         | Some form \<Rightarrow>
             (let sheet1 = sheet\<lparr>form_responses_1 :=
                    Some (replace_name_loop form_B (\<lambda>v r. r\<lparr>form_B := v\<rparr>) newName oldNameLower form)\<rparr>
              in case responses sheet1 of
                   None \<Rightarrow> (Some TypeError, sheet1)
                 | Some rows \<Rightarrow>
                     (None, sheet1\<lparr>responses :=
                        Some (replace_name_loop resp_A (\<lambda>v r. r\<lparr>resp_A := v\<rparr>)
                                newName oldNameLower rows)\<rparr>)))"

definition fixName :: "world \<Rightarrow> error option \<times> world" where
  "fixName w =
     (let oldName = OLD_NAME_CELL (SHEET w);
          newName = NEW_NAME_CELL (SHEET w)
      in if oldName = [] \<or> newName = []
         then (None, w\<lparr>SHEET := (SHEET w)\<lparr>NAME_ERROR_CELL := ''One of the fields is empty''\<rparr>\<rparr>)
         else (case each_file (replaceNameInSheet newName oldName) (SHEETS_FOLDER w) of
                 (Some e, f) \<Rightarrow> (Some e, w\<lparr>SHEETS_FOLDER := f\<rparr>)
               | (None, f) \<Rightarrow>
                   (case updateMemberPoints f (memberSheet w) of
                      (Some e, ms) \<Rightarrow> (Some e, w\<lparr>SHEETS_FOLDER := f, memberSheet := ms\<rparr>)
                    | (None, ms) \<Rightarrow>
                        (None, w\<lparr>SHEETS_FOLDER := f, memberSheet := ms,
                                 SHEET := (SHEET w)\<lparr>OLD_NAME_CELL := [], NEW_NAME_CELL := []\<rparr>\<rparr>))))"

subsection \<open>\<^verbatim>\<open>deleteName\<close> and \<^verbatim>\<open>deleteNameInSheet\<close>\<close>

text \<open>\<^verbatim>\<open>deleteRow\<close> removes one row; the rows below it move up by one.\<close>

definition deleteRow :: "nat \<Rightarrow> 'r list \<Rightarrow> 'r list" where
  "deleteRow i rows = take i rows @ drop (Suc i) rows"

text \<open>
  Each loop of \<^verbatim>\<open>deleteNameInSheet\<close>: \<open>i\<close> is the position in the list of the row that
  \<^verbatim>\<open>index\<close> addresses (\<open>index = i + 2\<close>). The loop reads the tab again in every round,
  so it sees the rows as they are after the deletions made so far; \<^verbatim>\<open>index\<close> grows by
  one in every round, also after a deletion. A row after the list is blank and ends the
  loop. The first two arguments read the name and the email of a row.
\<close>

function delete_loop ::
  "('r \<Rightarrow> string) \<Rightarrow> ('r \<Rightarrow> string) \<Rightarrow> string \<Rightarrow> string \<Rightarrow> nat \<Rightarrow> 'r list \<Rightarrow> 'r list" where
  "delete_loop rd_name rd_email delEmail delName i rows =
     (if i < length rows
      then (let name = toLowerCase (rd_name (rows ! i));
                email = toLowerCase (rd_email (rows ! i))
            in if name \<noteq> []
               then (if name = delName \<and> email = delEmail
                     then delete_loop rd_name rd_email delEmail delName (Suc i) (deleteRow i rows)
                     else delete_loop rd_name rd_email delEmail delName (Suc i) rows)
               else rows)
      else rows)"
  by pat_completeness auto
termination
  by (relation "measure (\<lambda>(rd_name, rd_email, delEmail, delName, i, rows). length rows - i)")
     (auto simp add: deleteRow_def)

declare delete_loop.simps [simp del]

definition deleteNameInSheet ::
  "string \<Rightarrow> string \<Rightarrow> spreadsheet \<Rightarrow> error option \<times> spreadsheet" where
  "deleteNameInSheet delEmail delName sheet =
     (case form_responses_1 sheet of
        None \<Rightarrow> (Some TypeError, sheet)
      | Some form \<Rightarrow>
          (let sheet1 = sheet\<lparr>form_responses_1 :=
                 Some (delete_loop form_B form_C delEmail delName 0 form)\<rparr>
           in case responses sheet1 of
                None \<Rightarrow> (Some TypeError, sheet1)
              | Some rows \<Rightarrow>
                  (None, sheet1\<lparr>responses :=
                     Some (delete_loop resp_A resp_B delEmail delName 0 rows)\<rparr>)))"

definition deleteName :: "world \<Rightarrow> error option \<times> world" where
  "deleteName w =
     (let delName = toLowerCase (DEL_NAME_CELL (SHEET w));
          delEmail = toLowerCase (DEL_EMAIL_CELL (SHEET w))
      in if delName = [] \<or> delEmail = []
         then (None, w\<lparr>SHEET := (SHEET w)\<lparr>DEL_ERROR_CELL := ''One of the fields is empty''\<rparr>\<rparr>)
         else (case each_file (deleteNameInSheet delEmail delName) (SHEETS_FOLDER w) of
                 (Some e, f) \<Rightarrow> (Some e, w\<lparr>SHEETS_FOLDER := f\<rparr>)
               | (None, f) \<Rightarrow>
                   (case updateMemberPoints f (memberSheet w) of
                      (Some e, ms) \<Rightarrow> (Some e, w\<lparr>SHEETS_FOLDER := f, memberSheet := ms\<rparr>)
                    | (None, ms) \<Rightarrow>
                        (None, w\<lparr>SHEETS_FOLDER := f, memberSheet := ms,
                                 SHEET := (SHEET w)\<lparr>DEL_NAME_CELL := [], DEL_EMAIL_CELL := []\<rparr>\<rparr>))))"

section \<open>\<^verbatim>\<open>findUser\<close> and \<^verbatim>\<open>getNameFromSheet\<close>\<close>

text \<open>\<^verbatim>\<open>Number\<close> of a cell of column D or F: a blank cell reads as the empty text, which is 0.\<close>

fun Number :: "cell \<Rightarrow> int" where
  "Number Blank = 0"
| "Number (Num n) = n"










section \<open>Notions used to state the properties\<close>

text \<open>The colour that lines 283 to 290 choose for a total.\<close>

definition base_color :: "jsval \<Rightarrow> color" where
  "base_color t = (if js_lt t (JNum 3) then DEFAULT_MEMBER_COLOR
                     else if js_lt t (JNum 15) then ACTIVE_MEMBER_COLOR
                     else INVOLVED_MEMBER_COLOR)"

text \<open>The row that the loop of lines 273 to 308 leaves at position \<open>j\<close>.\<close>

definition written_row :: "string list \<Rightarrow> response_set \<Rightarrow> nat \<Rightarrow> member_row" where
  "written_row emails rs j = \<lparr>mp_A = js_get (names rs) (emails ! j), mp_B = js_get (points rs) (emails ! j),
      mp_C = JStr (emails ! j), mp_background = base_color (js_get (points rs) (emails ! j))\<rparr>"

text \<open>
  The tiers of the specification, and the styling constant that shows each. The tier of an
  entry follows the specification's words: Most-Involved for a total that is the maximum
  when that maximum is at least 15, otherwise by the thresholds 3 and 15.
\<close>

datatype tier = Base | Active | Involved | Most_Involved

fun tier_color :: "tier \<Rightarrow> color" where
  "tier_color Base = DEFAULT_MEMBER_COLOR"
| "tier_color Active = ACTIVE_MEMBER_COLOR"
| "tier_color Involved = INVOLVED_MEMBER_COLOR"
| "tier_color Most_Involved = MOST_INVOLVED_MEMBER_COLOR"

definition spec_tier :: "int \<Rightarrow> int \<Rightarrow> tier" where
  "spec_tier t mx =
     (if 15 \<le> mx \<and> t = mx then Most_Involved
      else if t < 3 then Base
      else if t < 15 then Active
      else Involved)"

definition tier_example :: "(string \<times> int) list" where
  "tier_example = [(''a'', 2), (''b'', 3), (''c'', 14), (''d'', 15), (''e'', 20), (''f'', 20)]"

text \<open>The normalised email of a row of the \<^verbatim>\<open>Responses\<close> tab.\<close>

definition email_of :: "response_row \<Rightarrow> string" where
  "email_of r = toLowerCase (resp_B r)"

text \<open>
  The attendance records of a tab as \<^verbatim>\<open>getResponsesFromEvent\<close> reads them: the rows before
  the first blank email.
\<close>

definition records :: "response_row list \<Rightarrow> response_row list" where
  "records rows = takeWhile (\<lambda>r. email_of r \<noteq> []) rows"

text \<open>Default points plus additional points, a blank cell counting 0.\<close>

definition record_points :: "int \<Rightarrow> response_row \<Rightarrow> int" where
  "record_points d r = d + Number (resp_D r)"

text \<open>The number in a cell, 0 for a cell that holds none.\<close>

fun cell_number :: "jsval \<Rightarrow> int" where
  "cell_number (JNum n) = n"
| "cell_number v = 0"

text \<open>The sum of the numbers of an object.\<close>

definition total_points :: "js_object \<Rightarrow> int" where
  "total_points obj = sum_list (map (\<lambda>p. cell_number (snd p)) obj)"

text \<open>
  What holds of every \<^verbatim>\<open>responseSet\<close> built from tabs whose F2 is a number: \<^verbatim>\<open>names\<close> and
  \<^verbatim>\<open>points\<close> have the same keys in the same order, each key once, no name is
  \<^verbatim>\<open>undefined\<close> and every entry of \<^verbatim>\<open>points\<close> is a number.
\<close>

definition wf_set :: "response_set \<Rightarrow> bool" where
  "wf_set rs = (map fst (names rs) = map fst (points rs) \<and> distinct (map fst (names rs))
      \<and> JUndefined \<notin> snd ` set (names rs) \<and> (\<forall>v \<in> snd ` set (points rs). \<exists>n. v = JNum n))"

text \<open>The points of a set for an email, 0 when the email is absent.\<close>

definition points_for :: "response_set \<Rightarrow> string \<Rightarrow> int" where
  "points_for rs k = cell_number (js_get (points rs) k)"

text \<open>What \<^verbatim>\<open>getResponsesFromEvent\<close> returns for a tab, and for a spreadsheet.\<close>

definition event_info :: "response_row list \<Rightarrow> response_set" where
  "event_info rows = responses_loop (getValue (range_F2 rows)) rows \<lparr>names = [], points = []\<rparr>"

definition sheet_info :: "spreadsheet \<Rightarrow> response_set" where
  "sheet_info s = (case responses s of None \<Rightarrow> \<lparr>names = [], points = []\<rparr> | Some rows \<Rightarrow> event_info rows)"

text \<open>A readable source: the \<^verbatim>\<open>Responses\<close> tab exists and its cell F2 holds a number.\<close>

definition source_ok :: "spreadsheet \<Rightarrow> bool" where
  "source_ok s =
     (case responses s of
        None \<Rightarrow> False
      | Some rows \<Rightarrow> (case range_F2 rows of Blank \<Rightarrow> False | Num d \<Rightarrow> True))"

text \<open>The name that the first of a list of sources has for an email.\<close>

fun first_name :: "spreadsheet list \<Rightarrow> string \<Rightarrow> jsval option" where
  "first_name [] k = None"
| "first_name (s # ss) k =
     (case map_of (names (sheet_info s)) k of Some v \<Rightarrow> Some v | None \<Rightarrow> first_name ss k)"

text \<open>The entries of the Member Points sheet: the rows that hold a total in column B.\<close>

definition entries :: "member_row list \<Rightarrow> member_row list" where
  "entries sheet = filter (\<lambda>r. mp_B r \<noteq> JStr []) sheet"

text \<open>The row of an email: name, total, email, and the colour of its tier.\<close>

definition ledger_row :: "response_set \<Rightarrow> string \<Rightarrow> member_row" where
  "ledger_row rs e =
     \<lparr>mp_A = js_get (names rs) e, mp_B = js_get (points rs) e, mp_C = JStr e,
      mp_background =
        tier_color (spec_tier (points_for rs e) (Max (points_for rs ` fst ` set (names rs))))\<rparr>"

text \<open>\<^verbatim>\<open>responseSet\<close> as it stands at line 262, or the exception thrown before.\<close>

definition aggregate :: "sheets_folder \<Rightarrow> error + response_set" where
  "aggregate f =
     (case ids_loop (rev (collect_ids f)) None of
        Inl e \<Rightarrow> Inl e
      | Inr None \<Rightarrow> Inl TypeError
      | Inr (Some rs) \<Rightarrow> Inr rs)"

text \<open>
  The attendance records of a source, its default points, and the points of one of its
  records: default points plus additional points, a blank cell counting 0.
\<close>

definition source_records :: "spreadsheet \<Rightarrow> response_row list" where
  "source_records s = (case responses s of None \<Rightarrow> [] | Some rows \<Rightarrow> records rows)"

definition default_points :: "spreadsheet \<Rightarrow> int" where
  "default_points s = (case responses s of None \<Rightarrow> 0 | Some rows \<Rightarrow> Number (range_F2 rows))"

definition attendance_points :: "spreadsheet \<Rightarrow> response_row \<Rightarrow> int" where
  "attendance_points s r = default_points s + Number (resp_D r)"

text \<open>The last record of a source that carries a normalised email.\<close>

definition last_record :: "string \<Rightarrow> spreadsheet \<Rightarrow> response_row option" where
  "last_record k s = find (\<lambda>r. email_of r = k) (rev (source_records s))"

text \<open>The \<^verbatim>\<open>responseSet\<close> of a run; empty when the run throws.\<close>

definition ledger_set :: "sheets_folder \<Rightarrow> response_set" where
  "ledger_set f = (case aggregate f of Inl e \<Rightarrow> \<lparr>names = [], points = []\<rparr> | Inr rs \<Rightarrow> rs)"









text \<open>
  For the correction of an email: what \<^verbatim>\<open>replaceEmailInSheet\<close> does to a record and to a
  spreadsheet, and the total that a Member Points sheet shows for an email.
\<close>

definition rename_email :: "string \<Rightarrow> string \<Rightarrow> response_row \<Rightarrow> response_row" where
  "rename_email b a r = (if email_of r = a then r\<lparr>resp_B := b\<rparr> else r)"

definition renamed :: "string \<Rightarrow> string \<Rightarrow> spreadsheet \<Rightarrow> spreadsheet" where
  "renamed b a s = snd (replaceEmailInSheet b a s)"

definition ledger_total :: "member_row list \<Rightarrow> string \<Rightarrow> jsval option" where
  "ledger_total sheet k = map_option mp_B (find (\<lambda>r. mp_C r = JStr k) (entries sheet))"

section \<open>Example inputs\<close>

text \<open>Rows, a Control Panel with every cell blank, and the worlds used as examples below.\<close>

definition response_row :: "string \<Rightarrow> string \<Rightarrow> cell \<Rightarrow> cell \<Rightarrow> response_row" where
  "response_row a b d f = \<lparr>resp_A = a, resp_B = b, resp_D = d, resp_F = f\<rparr>"

definition form_row :: "string \<Rightarrow> string \<Rightarrow> form_row" where
  "form_row b c = \<lparr>form_B = b, form_C = c\<rparr>"

definition blank_panel :: control_panel where
  "blank_panel =
     \<lparr>OLD_EMAIL_CELL = [], NEW_EMAIL_CELL = [], EMAIL_ERROR_CELL = [], OLD_NAME_CELL = [],
      NEW_NAME_CELL = [], NAME_ERROR_CELL = [], DEL_NAME_CELL = [], DEL_EMAIL_CELL = [],
      DEL_ERROR_CELL = [], FIND_USER_CELL = [], USER_EVENTS_CELL = [], USER_EVENTS_FONT_SIZE = 12\<rparr>"

definition bob_twice :: spreadsheet where
  "bob_twice =
     \<lparr>file_name = ''Kickoff Member Sheet'',
      form_responses_1 = Some [form_row ''Ann Lee'' ''ann@x.com'', form_row ''Bob Smith'' ''bob@x.com'',
                               form_row ''Bob Smith'' ''bob@x.com''],
      responses = Some [response_row ''Ann Lee'' ''ann@x.com'' Blank (Num 1),
                        response_row ''Bob Smith'' ''bob@x.com'' Blank Blank,
                        response_row ''Bob Smith'' ''bob@x.com'' (Num 2) Blank]\<rparr>"

definition delete_bob :: world where
  "delete_bob =
     \<lparr>SHEET = blank_panel\<lparr>DEL_NAME_CELL := ''Bob Smith'', DEL_EMAIL_CELL := ''bob@x.com''\<rparr>,
      SHEETS_FOLDER = \<lparr>folder_files = [bob_twice], folder_subfolders = []\<rparr>,
      memberSheet = []\<rparr>"

definition unreadable_file :: spreadsheet where
  "unreadable_file = \<lparr>file_name = ''Gala Member Sheet'', form_responses_1 = None, responses = None\<rparr>"

definition old_ledger :: "member_row list" where
  "old_ledger =
     [\<lparr>mp_A = JStr ''Ann Lee'', mp_B = JNum 5, mp_C = JStr ''ann@x.com'',
       mp_background = ACTIVE_MEMBER_COLOR\<rparr>]"

definition ann_upper :: spreadsheet where
  "ann_upper =
     \<lparr>file_name = ''Kickoff Member Sheet'',
      form_responses_1 = Some [form_row ''Ann Lee'' ''Ann@x.com''],
      responses = Some [response_row ''Ann Lee'' ''Ann@x.com'' Blank (Num 1)]\<rparr>"

definition same_email :: world where
  "same_email =
     \<lparr>SHEET = blank_panel\<lparr>OLD_EMAIL_CELL := ''ann@x.com'', NEW_EMAIL_CELL := ''ann@x.com''\<rparr>,
      SHEETS_FOLDER = \<lparr>folder_files = [ann_upper], folder_subfolders = []\<rparr>,
      memberSheet = []\<rparr>"

definition empty_fields :: world where
  "empty_fields =
     \<lparr>SHEET = blank_panel\<lparr>OLD_EMAIL_CELL := ''ann@x.com'', OLD_NAME_CELL := ''Ann Lee'',
                             DEL_NAME_CELL := ''Ann Lee''\<rparr>,
      SHEETS_FOLDER = \<lparr>folder_files = [ann_upper], folder_subfolders = []\<rparr>,
      memberSheet = old_ledger\<rparr>"

definition kickoff :: spreadsheet where
  "kickoff =
     \<lparr>file_name = ''Kickoff Member Sheet'',
      form_responses_1 = Some [form_row ''Ann Lee'' ''Ann@x.com'', form_row ''Bob Smith'' ''bob@x.com''],
      responses = Some [response_row ''Ann Lee'' ''Ann@x.com'' Blank (Num 1),
                        response_row ''Bob Smith'' ''bob@x.com'' (Num 2) Blank]\<rparr>"

definition gala :: spreadsheet where
  "gala =
     \<lparr>file_name = ''Gala Member Sheet'',
      form_responses_1 = Some [form_row ''Ann L.'' ''ann@x.com''],
      responses = Some [response_row ''Ann L.'' ''ann@x.com'' (Num 1) (Num 2)]\<rparr>"

definition two_events :: sheets_folder where
  "two_events = \<lparr>folder_files = [kickoff], folder_subfolders = [[gala]]\<rparr>"

definition two_events_swapped :: sheets_folder where
  "two_events_swapped = \<lparr>folder_files = [gala], folder_subfolders = [[kickoff]]\<rparr>"

definition signed_in_twice :: spreadsheet where
  "signed_in_twice =
     \<lparr>file_name = ''Social Member Sheet'',
      form_responses_1 = Some [form_row ''Alice'' ''al@x.com'', form_row ''Alicia'' ''AL@x.com''],
      responses = Some [response_row ''Alice'' ''al@x.com'' Blank (Num 1),
                        response_row ''Alicia'' ''AL@x.com'' (Num 4) Blank]\<rparr>"












definition workshop :: spreadsheet where
  "workshop =
     \<lparr>file_name = ''Workshop Member Sheet'',
      form_responses_1 = Some [form_row ''Alice'' ''Alice@x.com''],
      responses = Some [response_row ''Alice'' ''Alice@x.com'' (Num 1) (Num 1)]\<rparr>"

definition banquet :: spreadsheet where
  "banquet =
     \<lparr>file_name = ''Banquet Member Sheet'',
      form_responses_1 = Some [form_row ''Alice K.'' ''alice2@x.com''],
      responses = Some [response_row ''Alice K.'' ''alice2@x.com'' (Num 1) (Num 3)]\<rparr>"

definition two_addresses :: world where
  "two_addresses =
     \<lparr>SHEET = blank_panel\<lparr>OLD_EMAIL_CELL := ''Alice@x.com'', NEW_EMAIL_CELL := ''alice2@x.com''\<rparr>,
      SHEETS_FOLDER = \<lparr>folder_files = [workshop], folder_subfolders = [[banquet]]\<rparr>,
      memberSheet = []\<rparr>"

section \<open>Basic facts\<close>

lemmas eval_defs = response_row_def form_row_def blank_panel_def blank_row_def StringToNumber_def
  toLowerCase_def lower_char_def toUpperCase_def upper_char_def
  js_get_def js_set_def js_add_def js_neq_def js_eq_def js_lt_def js_gt_def js_ge_def js_less_def
  getResponsesFromEvent_def range_F2_def merge_property_def collect_ids_def
  row_update_def clear_A3_B1000_def write_row_def write_loop.simps style_top_def write_ledger_def
  updateMemberPoints_def each_file_def deleteRow_def Let_def

lemmas example_defs = kickoff_def gala_def two_events_def two_events_swapped_def signed_in_twice_def
  old_ledger_def source_ok_def source_records_def records_def email_of_def default_points_def
  attendance_points_def entries_def last_record_def


lemmas rename_defs = workshop_def banquet_def two_addresses_def ledger_total_def

lemma toLowerCase_Nil [simp]: "(toLowerCase s = []) = (s = [])"
  by (simp add: toLowerCase_def)

subsection \<open>Operators on numbers\<close>

lemma js_lt_num [simp]: "js_lt (JNum a) (JNum b) = (a < b)"
  by (simp add: js_lt_def js_less_def)
lemma js_gt_num [simp]: "js_gt (JNum a) (JNum b) = (b < a)"
  by (simp add: js_gt_def js_less_def)
lemma js_ge_num [simp]: "js_ge (JNum a) (JNum b) = (b \<le> a)"
  by (auto simp add: js_ge_def js_less_def)
lemma js_eq_num [simp]: "js_eq (JNum a) (JNum b) = (a = b)"
  by (simp add: js_eq_def)
lemma js_add_num [simp]: "js_add (JNum a) (JNum b) = JNum (a + b)"
  by (simp add: js_add_def)

subsection \<open>Rows of the Member Points sheet\<close>

lemma length_row_update [simp]: "length (row_update i f s) = max (length s) (Suc i)"
  by (auto simp add: row_update_def Let_def)

lemma row_at_row_update:
  "row_at (row_update i f s) j = (if j = i then f (row_at s i) else row_at s j)"
  by (auto simp add: row_at_def row_update_def Let_def nth_append nth_list_update)

lemma write_loop_fold:
  "write_loop emails rs i st = fold (write_row emails rs) [i..<length emails] st"
proof (induction emails rs i st rule: write_loop.induct)
  case (1 emails rs i st)
  show ?case
  proof (cases "i < length emails")
    case True
    then show ?thesis
      using 1 by (subst write_loop.simps) (simp add: upt_conv_Cons)
  next
    case False
    then show ?thesis by (subst write_loop.simps) simp
  qed
qed

lemma fst_write_row:
  "row_at (fst (write_row emails rs i st)) j = (if j = i then written_row emails rs i else row_at (fst st) j)"
  by (cases st) (simp add: write_row_def Let_def row_at_row_update written_row_def base_color_def)

lemma fst_fold_write_row:
  "row_at (fst (fold (write_row emails rs) [0..<k] st)) j =
     (if j < k then written_row emails rs j else row_at (fst st) j)"
  by (induction k) (auto simp add: fst_write_row)

lemma snd_write_row_num:
  assumes "js_get (points rs) (emails ! i) = JNum t"
  shows "snd (write_row emails rs i (s, JNum m, ix)) =
           (if m < t then (JNum t, [i]) else if t = m then (JNum m, ix @ [i]) else (JNum m, ix))"
  using assms by (simp add: write_row_def Let_def)

lemma write_row_cases: "write_row emails rs i st = (fst (write_row emails rs i st), snd (write_row emails rs i st))"
  by simp

lemma max_step:
  fixes t m :: int and f :: "nat \<Rightarrow> int"
  assumes le: "\<And>j. j < k \<Longrightarrow> f j \<le> m"
  shows "(if m < t then (JNum t, [k])
          else if t = m then (JNum m, filter (\<lambda>j. f j = m) [0..<k] @ [k])
          else (JNum m, filter (\<lambda>j. f j = m) [0..<k])) =
         (JNum (max t m), filter (\<lambda>j. (if j = k then t else f j) = max t m) [0..<Suc k])"
proof (cases "m < t")
  case True
  have "\<And>j. j < k \<Longrightarrow> f j \<noteq> t"
  proof -
    fix j assume "j < k"
    from le [OF this] True show "f j \<noteq> t" by linarith
  qed
  then have "filter (\<lambda>j. (if j = k then t else f j) = t) [0..<k] = []"
    by (auto simp add: filter_empty_conv)
  then show ?thesis using True by (simp add: max_def)
next
  case False
  have "filter (\<lambda>j. (if j = k then t else f j) = m) [0..<k] = filter (\<lambda>j. f j = m) [0..<k]"
    by (rule filter_cong) auto
  then show ?thesis using False by (auto simp add: max_def)
qed

lemma snd_fold_write_row_num:
  assumes num: "\<forall>e \<in> set emails. js_get (points rs) e = JNum (tot e)"
    and k: "k \<le> length emails"
  shows "snd (fold (write_row emails rs) [0..<k] (s, JNum 0, [])) =
           (JNum (Max (insert 0 (tot ` set (take k emails)))),
            filter (\<lambda>j. tot (emails ! j) = Max (insert 0 (tot ` set (take k emails)))) [0..<k])"
  using k
proof (induction k)
  case 0
  then show ?case by simp
next
  case (Suc k)
  define st where "st = fold (write_row emails rs) [0..<k] (s, JNum 0, [])"
  define m where "m = Max (insert 0 (tot ` set (take k emails)))"
  define t where "t = tot (emails ! k)"
  have klt: "k < length emails" using Suc.prems by simp
  have IH: "snd st = (JNum m, filter (\<lambda>j. tot (emails ! j) = m) [0..<k])"
    using Suc by (simp add: st_def m_def)
  have get: "js_get (points rs) (emails ! k) = JNum t"
    using num klt by (simp add: t_def)
  have tk: "take (Suc k) emails = take k emails @ [emails ! k]"
    using klt by (simp add: take_Suc_conv_app_nth)
  have m': "Max (insert 0 (tot ` set (take (Suc k) emails))) = max t m"
  proof -
    have "insert 0 (tot ` set (take (Suc k) emails)) = insert t (insert 0 (tot ` set (take k emails)))"
      by (auto simp add: tk t_def)
    then show ?thesis
      by (simp only: m_def Max_insert [OF _ insert_not_empty] finite_insert finite_imageI finite_set)
  qed
  have le: "\<And>j. j < k \<Longrightarrow> tot (emails ! j) \<le> m"
  proof -
    fix j assume "j < k"
    then have "emails ! j \<in> set (take k emails)"
      using klt by (metis in_set_conv_nth length_take min.absorb2 less_imp_le nth_take order.strict_trans)
    then show "tot (emails ! j) \<le> m" unfolding m_def by (intro Max_ge) auto
  qed
  have st: "st = (fst st, JNum m, filter (\<lambda>j. tot (emails ! j) = m) [0..<k])"
    using IH by (metis prod.collapse)
  have "snd (fold (write_row emails rs) [0..<Suc k] (s, JNum 0, [])) = snd (write_row emails rs k st)"
    by (simp add: st_def)
  also have "\<dots> = (if m < t then (JNum t, [k])
                   else if t = m then (JNum m, filter (\<lambda>j. tot (emails ! j) = m) [0..<k] @ [k])
                   else (JNum m, filter (\<lambda>j. tot (emails ! j) = m) [0..<k]))"
    by (subst st) (rule snd_write_row_num [OF get])
  also have "\<dots> = (JNum (max t m),
       filter (\<lambda>j. (if j = k then t else tot (emails ! j)) = max t m) [0..<Suc k])"
    by (rule max_step) (rule le)
  also have "filter (\<lambda>j. (if j = k then t else tot (emails ! j)) = max t m) [0..<Suc k] =
             filter (\<lambda>j. tot (emails ! j) = max t m) [0..<Suc k]"
    by (rule filter_cong) (auto simp add: t_def)
  finally show ?case by (simp only: m')
qed

lemma row_at_fold_row_update:
  assumes "\<And>r. g (g r) = g r"
  shows "row_at (fold (\<lambda>idx s. row_update idx g s) ix s) j =
           (if j \<in> set ix then g (row_at s j) else row_at s j)"
  using assms
  by (induction ix arbitrary: s) (auto simp add: row_at_row_update)

lemma Max_insert0:
  fixes S :: "int set"
  assumes "finite S" "S \<noteq> {}" "15 \<le> Max (insert 0 S) \<or> 15 \<le> Max S"
  shows "Max (insert 0 S) = Max S"
proof -
  have "Max (insert 0 S) = max 0 (Max S)" using assms by simp
  then show ?thesis using assms by (auto simp add: max_def)
qed

lemma write_ledger_background:
  assumes num: "\<forall>e \<in> set emails. js_get (points rs) e = JNum (tot e)"
    and i: "i < length emails"
  shows "mp_background (row_at (write_ledger emails rs sheet) i) =
           (if 15 \<le> Max (insert 0 (tot ` set emails)) \<and> tot (emails ! i) = Max (insert 0 (tot ` set emails))
            then MOST_INVOLVED_MEMBER_COLOR else base_color (JNum (tot (emails ! i))))"
proof -
  define st where "st = fold (write_row emails rs) [0..<length emails] (sheet, JNum 0, [])"
  define m where "m = Max (insert 0 (tot ` set emails))"
  have snd_st: "snd st = (JNum m, filter (\<lambda>j. tot (emails ! j) = m) [0..<length emails])"
    using snd_fold_write_row_num [OF num order_refl, of s] unfolding st_def m_def
    by (simp add: snd_fold_write_row_num [OF num order_refl])
  have st: "st = (fst st, JNum m, filter (\<lambda>j. tot (emails ! j) = m) [0..<length emails])"
    using snd_st by (metis prod.collapse)
  have row: "row_at (fst st) i = written_row emails rs i"
    using i unfolding st_def by (simp add: fst_fold_write_row)
  have wl: "write_ledger emails rs sheet =
          style_top (JNum m) (filter (\<lambda>j. tot (emails ! j) = m) [0..<length emails]) (fst st)"
    unfolding write_ledger_def write_loop_fold st_def [symmetric] by (subst st) simp
  have get: "js_get (points rs) (emails ! i) = JNum (tot (emails ! i))"
    using num i by simp
  show ?thesis
    unfolding wl m_def [symmetric]
    using i by (simp add: style_top_def row_at_fold_row_update row written_row_def get)
qed


subsection \<open>Aggregation\<close>

lemma record_points_add:
  "js_add (JNum d) (if js_neq (getValue c) (JStr []) then getValue c else JNum 0) = JNum (d + Number c)"
  by (cases c) (simp_all add: js_neq_def js_eq_def js_add_def StringToNumber_def)

lemma responses_loop_fold:
  "responses_loop (JNum d) rows rs =
     \<lparr>names = fold (\<lambda>r. AList.update (email_of r) (JStr (resp_A r))) (records rows) (names rs),
      points = fold (\<lambda>r. AList.update (email_of r) (JNum (record_points d r))) (records rows) (points rs)\<rparr>"
  by (induction rows arbitrary: rs)
     (simp_all add: records_def email_of_def Let_def js_set_def record_points_add record_points_def)

lemma map_of_fold_update:
  "map_of (fold (\<lambda>r. AList.update (k r) (v r)) xs al) = map_of al ++ map_of (rev (map (\<lambda>r. (k r, v r)) xs))"
  by (induction xs arbitrary: al) (simp_all add: update_conv' map_add_upd_left fun_eq_iff map_add_def split: option.splits)

lemma keys_fold_update:
  "map fst al = map fst bl \<Longrightarrow>
   map fst (fold (\<lambda>r. AList.update (k r) (v r)) xs al) = map fst (fold (\<lambda>r. AList.update (k r) (u r)) xs bl)"
  by (induction xs arbitrary: al bl) (simp_all add: update_keys)

lemma distinct_fold_update:
  "distinct (map fst al) \<Longrightarrow> distinct (map fst (fold (\<lambda>r. AList.update (k r) (v r)) xs al))"
  by (induction xs arbitrary: al) (simp_all add: distinct_update)

lemma set_fold_update:
  "snd ` set (fold (\<lambda>r. AList.update (k r) (v r)) xs al) \<subseteq> snd ` set al \<union> v ` set xs"
proof (induction xs arbitrary: al)
  case Nil
  then show ?case by simp
next
  case (Cons x xs)
  have "snd ` set (AList.update (k x) (v x) al) \<subseteq> snd ` set al \<union> {v x}"
    by (induction al) auto
  with Cons [of "AList.update (k x) (v x) al"] show ?case by auto
qed

lemma keys_set_fold_update:
  "fst ` set (fold (\<lambda>r. AList.update (k r) (v r)) xs al) = fst ` set al \<union> k ` set xs"
  by (induction xs arbitrary: al) (auto simp add: dom_update)



lemma js_eq_undefined: "js_eq v JUndefined = (v = JUndefined)"
  by (simp add: js_eq_def)

lemma js_get_eq_undefined:
  "JUndefined \<notin> snd ` set obj \<Longrightarrow> (js_get obj k = JUndefined) = (map_of obj k = None)"
  by (auto simp add: js_get_def split: option.splits dest!: map_of_SomeD intro: rev_image_eqI)

lemma total_points_append [simp]: "total_points (al @ bl) = total_points al + total_points bl"
  by (simp add: total_points_def)

lemma total_points_update:
  "distinct (map fst al) \<Longrightarrow>
   total_points (AList.update k v al) =
     total_points al - (case map_of al k of None \<Rightarrow> 0 | Some u \<Rightarrow> cell_number u) + cell_number v"
proof (induction al)
  case Nil
  then show ?case by (simp add: total_points_def)
next
  case (Cons p al)
  obtain k' u where p: "p = (k', u)" by (cases p)
  show ?case
  proof (cases "k' = k")
    case True
    then show ?thesis using p by (simp add: total_points_def)
  next
    case False
    then show ?thesis using Cons p by (simp add: total_points_def)
  qed
qed

lemma wf_set_key_num:
  assumes "wf_set rs" "map_of (names rs) k \<noteq> None"
  shows "\<exists>n. map_of (points rs) k = Some (JNum n)"
proof -
  have "k \<in> fst ` set (names rs)" using assms(2) by (simp add: map_of_eq_None_iff)
  then have "k \<in> fst ` set (points rs)" using assms(1) unfolding wf_set_def
    by (metis set_map)
  then obtain v where v: "map_of (points rs) k = Some v"
    by (metis map_of_eq_None_iff not_Some_eq)
  then have "v \<in> snd ` set (points rs)" by (auto dest!: map_of_SomeD intro: rev_image_eqI)
  then show ?thesis using assms(1) v unfolding wf_set_def by auto
qed

lemma wf_set_names_None:
  assumes "wf_set rs" "map_of (names rs) k = None"
  shows "map_of (points rs) k = None"
proof -
  have "k \<notin> fst ` set (names rs)" using assms(2) by (simp add: map_of_eq_None_iff)
  then have "k \<notin> fst ` set (points rs)" using assms(1) unfolding wf_set_def
    by (metis set_map)
  then show ?thesis by (simp add: map_of_eq_None_iff)
qed

lemma merge_property_new:
  assumes "wf_set rs" "map_of (names rs) p = None"
  shows "merge_property info p rs =
           \<lparr>names = AList.update p (js_get (names info) p) (names rs),
            points = AList.update p (js_get (points info) p) (points rs)\<rparr>"
proof -
  have "JUndefined \<notin> snd ` set (names rs)" using assms(1) by (simp add: wf_set_def)
  then have "js_get (names rs) p = JUndefined" using assms(2) by (simp add: js_get_eq_undefined)
  then show ?thesis by (simp add: merge_property_def js_eq_undefined js_set_def)
qed

lemma merge_property_known:
  assumes "wf_set rs" "map_of (names rs) p \<noteq> None" "js_get (points info) p = JNum b"
  shows "merge_property info p rs =
           rs\<lparr>points := AList.update p (JNum (points_for rs p + b)) (points rs)\<rparr>"
proof -
  have "JUndefined \<notin> snd ` set (names rs)" using assms(1) by (simp add: wf_set_def)
  then have 1: "js_get (names rs) p \<noteq> JUndefined" using assms(2) by (simp add: js_get_eq_undefined)
  obtain a where a: "map_of (points rs) p = Some (JNum a)"
    using wf_set_key_num [OF assms(1,2)] by blast
  then have 2: "js_get (points rs) p = JNum a" by (simp add: js_get_def)
  show ?thesis using 1 2 assms(3)
    by (simp add: merge_property_def js_eq_undefined js_set_def points_for_def)
qed

lemma snd_set_update: "snd ` set (AList.update k v al) \<subseteq> insert v (snd ` set al)"
  by (induction al) auto

lemma vals_update:
  "\<forall>v \<in> snd ` set al. P v \<Longrightarrow> P v' \<Longrightarrow> \<forall>v \<in> snd ` set (AList.update k v' al). P v"
  using snd_set_update [of k v' al] by blast

lemma wf_set_distinct_names: "wf_set rs \<Longrightarrow> distinct (map fst (names rs))"
  unfolding wf_set_def by blast

lemma wf_set_keys: "wf_set rs \<Longrightarrow> map fst (names rs) = map fst (points rs)"
  unfolding wf_set_def by blast

lemma wf_set_distinct_points: "wf_set rs \<Longrightarrow> distinct (map fst (points rs))"
  unfolding wf_set_def by metis

lemma wf_set_info_get:
  assumes "wf_set info" "p \<in> fst ` set (names info)"
  shows "js_get (points info) p = JNum (points_for info p)" and "js_get (names info) p \<noteq> JUndefined"
proof -
  have n: "map_of (names info) p \<noteq> None" using assms(2) by (simp add: map_of_eq_None_iff)
  obtain b where "map_of (points info) p = Some (JNum b)"
    using wf_set_key_num [OF assms(1) n] by blast
  then show "js_get (points info) p = JNum (points_for info p)"
    by (simp add: js_get_def points_for_def)
  have "JUndefined \<notin> snd ` set (names info)" using assms(1) by (simp add: wf_set_def)
  then show "js_get (names info) p \<noteq> JUndefined" using n by (simp add: js_get_eq_undefined)
qed

lemma points_for_absent: "map_of (points rs) p = None \<Longrightarrow> points_for rs p = 0"
  by (simp add: points_for_def js_get_def)

lemma merge_property_wf:
  assumes rs: "wf_set rs" and info: "wf_set info" and p: "p \<in> fst ` set (names info)"
  shows "wf_set (merge_property info p rs)"
proof (cases "map_of (names rs) p = None")
  case True
  note get = wf_set_info_get [OF info p]
  have u: "\<forall>v \<in> snd ` set (names rs). v \<noteq> JUndefined"
    and n: "\<forall>v \<in> snd ` set (points rs). \<exists>n. v = JNum n"
    using rs unfolding wf_set_def by blast+
  have "\<forall>v \<in> snd ` set (AList.update p (js_get (names info) p) (names rs)). v \<noteq> JUndefined"
    by (rule vals_update [OF u get(2)])
  then have 1: "JUndefined \<notin> snd ` set (AList.update p (js_get (names info) p) (names rs))"
    by blast
  have 2: "\<forall>v \<in> snd ` set (AList.update p (js_get (points info) p) (points rs)). \<exists>n. v = JNum n"
    by (rule vals_update [OF n]) (simp add: get(1))
  have 3: "map fst (names rs) = map fst (points rs)" "distinct (map fst (names rs))"
    using rs unfolding wf_set_def by blast+
  show ?thesis
    unfolding merge_property_new [OF rs True] wf_set_def
    using 1 2 3 by (simp add: update_keys)
next
  case False
  note get = wf_set_info_get [OF info p]
  have n: "\<forall>v \<in> snd ` set (points rs). \<exists>n. v = JNum n"
    using rs unfolding wf_set_def by blast
  have 3: "map fst (names rs) = map fst (points rs)" "distinct (map fst (names rs))"
      "JUndefined \<notin> snd ` set (names rs)"
    using rs unfolding wf_set_def by blast+
  have "p \<in> fst ` set (names rs)" using False by (simp add: map_of_eq_None_iff)
  then have k: "p \<in> set (map fst (points rs))" using 3(1) by (metis set_map)
  have 2: "\<forall>v \<in> snd ` set (AList.update p (JNum (points_for rs p + points_for info p)) (points rs)). \<exists>n. v = JNum n"
    by (rule vals_update [OF n]) simp
  show ?thesis
    unfolding merge_property_known [OF rs False get(1)] wf_set_def
    using 2 3 k by (simp add: update_keys)
qed

lemma merge_property_points:
  assumes rs: "wf_set rs" and info: "wf_set info" and p: "p \<in> fst ` set (names info)"
  shows "map_of (points (merge_property info p rs)) =
           (map_of (points rs))(p \<mapsto> JNum (points_for rs p + points_for info p))"
proof (cases "map_of (names rs) p = None")
  case True
  note get = wf_set_info_get [OF info p]
  have "points_for rs p = 0"
    using wf_set_names_None [OF rs True] by (rule points_for_absent)
  then show ?thesis
    unfolding merge_property_new [OF rs True] by (simp add: update_conv' get(1))
next
  case False
  note get = wf_set_info_get [OF info p]
  show ?thesis
    unfolding merge_property_known [OF rs False get(1)] by (simp add: update_conv')
qed

lemma merge_property_names:
  assumes rs: "wf_set rs" and info: "wf_set info" and p: "p \<in> fst ` set (names info)"
  shows "map_of (names (merge_property info p rs)) =
           (if map_of (names rs) p = None then (map_of (names rs))(p \<mapsto> js_get (names info) p)
            else map_of (names rs))"
proof (cases "map_of (names rs) p = None")
  case True
  show ?thesis
    unfolding merge_property_new [OF rs True] using True by (simp add: update_conv')
next
  case False
  note get = wf_set_info_get [OF info p]
  show ?thesis
    unfolding merge_property_known [OF rs False get(1)] using False by auto
qed

lemma merge_property_total:
  assumes rs: "wf_set rs" and info: "wf_set info" and p: "p \<in> fst ` set (names info)"
  shows "total_points (points (merge_property info p rs)) = total_points (points rs) + points_for info p"
proof -
  have d: "distinct (map fst (points rs))" using rs by (rule wf_set_distinct_points)
  note get = wf_set_info_get [OF info p]
  show ?thesis
  proof (cases "map_of (names rs) p = None")
    case True
    have "map_of (points rs) p = None" by (rule wf_set_names_None [OF rs True])
    then show ?thesis
      unfolding merge_property_new [OF rs True]
      by (simp add: total_points_update [OF d] get(1))
  next
    case False
    obtain a where a: "map_of (points rs) p = Some (JNum a)"
      using wf_set_key_num [OF rs False] by blast
    then have "points_for rs p = a" by (simp add: points_for_def js_get_def)
    then show ?thesis
      unfolding merge_property_known [OF rs False get(1)]
      by (simp add: total_points_update [OF d] a)
  qed
qed

lemma points_for_merge_property:
  assumes rs: "wf_set rs" and info: "wf_set info" and p: "p \<in> fst ` set (names info)"
  shows "points_for (merge_property info p rs) k =
           (if k = p then points_for rs p + points_for info p else points_for rs k)"
  by (simp add: points_for_def js_get_def merge_property_points [OF rs info p])

lemma keys_merge_property:
  assumes rs: "wf_set rs" and info: "wf_set info" and p: "p \<in> fst ` set (names info)"
  shows "fst ` set (names (merge_property info p rs)) = insert p (fst ` set (names rs))"
proof -
  have "dom (map_of (names (merge_property info p rs))) = insert p (dom (map_of (names rs)))"
    unfolding merge_property_names [OF rs info p] by auto
  then show ?thesis by (simp add: dom_map_of_conv_image_fst)
qed

lemma merge_info_effect:
  assumes info: "wf_set info"
  shows "wf_set rs \<Longrightarrow> set ps \<subseteq> fst ` set (names info) \<Longrightarrow> distinct ps \<Longrightarrow>
         wf_set (merge_info ps info rs)
         \<and> total_points (points (merge_info ps info rs)) =
             total_points (points rs) + sum_list (map (points_for info) ps)
         \<and> (\<forall>k. points_for (merge_info ps info rs) k =
                  points_for rs k + (if k \<in> set ps then points_for info k else 0))
         \<and> (\<forall>k. map_of (names (merge_info ps info rs)) k =
                  (if map_of (names rs) k = None \<and> k \<in> set ps then Some (js_get (names info) k)
                   else map_of (names rs) k))
         \<and> fst ` set (names (merge_info ps info rs)) = fst ` set (names rs) \<union> set ps"
proof (induction ps arbitrary: rs)
  case Nil
  then show ?case by simp
next
  case (Cons p ps)
  have p: "p \<in> fst ` set (names info)" using Cons.prems by simp
  have rs: "wf_set rs" by (rule Cons.prems(1))
  let ?rs = "merge_property info p rs"
  have wf: "wf_set ?rs" by (rule merge_property_wf [OF rs info p])
  have sub: "set ps \<subseteq> fst ` set (names info)" and d: "distinct ps" and np: "p \<notin> set ps"
    using Cons.prems by simp_all
  note IH = Cons.IH [OF wf sub d]
  note nm = merge_property_names [OF rs info p]
  have 1: "wf_set (merge_info (p # ps) info rs)" using IH by simp
  have 2: "total_points (points (merge_info (p # ps) info rs)) =
             total_points (points rs) + sum_list (map (points_for info) (p # ps))"
    using IH by (simp add: merge_property_total [OF rs info p])
  have 3: "\<forall>k. points_for (merge_info (p # ps) info rs) k =
                  points_for rs k + (if k \<in> set (p # ps) then points_for info k else 0)"
    using IH np by (auto simp add: points_for_merge_property [OF rs info p])
  have 4: "\<forall>k. map_of (names (merge_info (p # ps) info rs)) k =
                  (if map_of (names rs) k = None \<and> k \<in> set (p # ps) then Some (js_get (names info) k)
                   else map_of (names rs) k)"
  proof
    fix k
    have "map_of (names (merge_info (p # ps) info rs)) k =
            (if map_of (names ?rs) k = None \<and> k \<in> set ps then Some (js_get (names info) k)
             else map_of (names ?rs) k)"
      using IH by simp
    then show "map_of (names (merge_info (p # ps) info rs)) k =
                  (if map_of (names rs) k = None \<and> k \<in> set (p # ps) then Some (js_get (names info) k)
                   else map_of (names rs) k)"
      using np by (auto simp add: nm split: if_splits)
  qed
  have 5: "fst ` set (names (merge_info (p # ps) info rs)) = fst ` set (names rs) \<union> set (p # ps)"
    using IH by (simp add: keys_merge_property [OF rs info p])
  from 1 2 3 4 5 show ?case by blast
qed

lemma js_get_keys:
  "distinct (map fst al) \<Longrightarrow> map (js_get al) (map fst al) = map snd al"
  by (induction al) (auto simp add: js_get_def rev_image_eqI)

lemma sum_points_for_keys:
  assumes "wf_set info"
  shows "sum_list (map (points_for info) (map fst (names info))) = total_points (points info)"
proof -
  have k: "map fst (names info) = map fst (points info)" and d: "distinct (map fst (points info))"
    using assms unfolding wf_set_def by metis+
  have "map (points_for info) (map fst (points info)) =
          map cell_number (map (js_get (points info)) (map fst (points info)))"
    by (simp add: points_for_def)
  also have "\<dots> = map cell_number (map snd (points info))"
    by (simp only: js_get_keys [OF d])
  also have "\<dots> = map (\<lambda>p. cell_number (snd p)) (points info)"
    by simp
  finally have "map (points_for info) (map fst (points info)) = map (\<lambda>p. cell_number (snd p)) (points info)" .
  then show ?thesis unfolding k total_points_def by (rule arg_cong)
qed

lemma source_ok_cases:
  assumes "source_ok s"
  obtains rows d where "responses s = Some rows" "range_F2 rows = Num d"
  using assms by (auto simp add: source_ok_def split: option.splits cell.splits)

lemma getResponsesFromEvent_info:
  "source_ok s \<Longrightarrow> getResponsesFromEvent (responses s) = Inr (sheet_info s)"
  by (erule source_ok_cases) (simp add: getResponsesFromEvent_def sheet_info_def event_info_def)

lemma event_info_num:
  assumes "range_F2 rows = Num d"
  shows "event_info rows =
     \<lparr>names = fold (\<lambda>r. AList.update (email_of r) (JStr (resp_A r))) (records rows) [],
      points = fold (\<lambda>r. AList.update (email_of r) (JNum (record_points d r))) (records rows) []\<rparr>"
  by (simp add: event_info_def assms responses_loop_fold)

lemma wf_set_event_info:
  assumes "range_F2 rows = Num d"
  shows "wf_set (event_info rows)"
proof -
  have 1: "map fst (fold (\<lambda>r. AList.update (email_of r) (JStr (resp_A r))) (records rows) []) =
           map fst (fold (\<lambda>r. AList.update (email_of r) (JNum (record_points d r))) (records rows) [])"
    by (rule keys_fold_update) simp
  have 2: "distinct (map fst (fold (\<lambda>r. AList.update (email_of r) (JStr (resp_A r))) (records rows) []))"
    by (rule distinct_fold_update) simp
  have 3: "JUndefined \<notin> snd ` set (fold (\<lambda>r. AList.update (email_of r) (JStr (resp_A r))) (records rows) [])"
    using set_fold_update [of email_of "\<lambda>r. JStr (resp_A r)" "records rows" "[]"] by auto
  have 4: "\<forall>v \<in> snd ` set (fold (\<lambda>r. AList.update (email_of r) (JNum (record_points d r))) (records rows) []).
             \<exists>n. v = JNum n"
    using set_fold_update [of email_of "\<lambda>r. JNum (record_points d r)" "records rows" "[]"] by auto
  show ?thesis
    unfolding event_info_num [OF assms] wf_set_def using 1 2 3 4 by simp
qed

lemma wf_set_info: "source_ok s \<Longrightarrow> wf_set (sheet_info s)"
  by (erule source_ok_cases) (simp add: sheet_info_def wf_set_event_info)

lemma ids_loop_effect:
  "list_all source_ok ss \<Longrightarrow> wf_set rs0 \<Longrightarrow>
   \<exists>rs. ids_loop ss (Some rs0) = Inr (Some rs) \<and> wf_set rs
     \<and> total_points (points rs) = total_points (points rs0) + (\<Sum>s\<leftarrow>ss. total_points (points (sheet_info s)))
     \<and> (\<forall>k. points_for rs k = points_for rs0 k + (\<Sum>s\<leftarrow>ss. points_for (sheet_info s) k))
     \<and> (\<forall>k. map_of (names rs) k =
              (case map_of (names rs0) k of Some v \<Rightarrow> Some v | None \<Rightarrow> first_name ss k))
     \<and> fst ` set (names rs) = fst ` set (names rs0) \<union> (\<Union>s \<in> set ss. fst ` set (names (sheet_info s)))"
proof (induction ss arbitrary: rs0)
  case Nil
  then show ?case by (simp split: option.splits)
next
  case (Cons s ss)
  have ok: "source_ok s" and oks: "list_all source_ok ss" using Cons.prems by simp_all
  have wi: "wf_set (sheet_info s)" by (rule wf_set_info [OF ok])
  let ?keys = "map fst (names (sheet_info s))"
  let ?rs1 = "merge_info ?keys (sheet_info s) rs0"
  have dk: "distinct ?keys" using wi by (rule wf_set_distinct_names)
  have sub: "set ?keys \<subseteq> fst ` set (names (sheet_info s))" by simp
  note eff0 = merge_info_effect [OF wi Cons.prems(2) sub dk]
  from eff0 have w1: "wf_set ?rs1" by blast
  from eff0 have e2: "total_points (points ?rs1) = total_points (points rs0) + total_points (points (sheet_info s))"
    by (simp only: sum_points_for_keys [OF wi])
  from eff0 have e3: "\<And>k. points_for ?rs1 k =
      points_for rs0 k + (if k \<in> fst ` set (names (sheet_info s)) then points_for (sheet_info s) k else 0)"
    by simp
  from eff0 have e4: "\<And>k. map_of (names ?rs1) k =
      (if map_of (names rs0) k = None \<and> k \<in> fst ` set (names (sheet_info s))
       then Some (js_get (names (sheet_info s)) k) else map_of (names rs0) k)"
    by simp
  from eff0 have e5: "fst ` set (names ?rs1) = fst ` set (names rs0) \<union> fst ` set (names (sheet_info s))"
    by simp
  from Cons.IH [OF oks w1] obtain rs where
    loop: "ids_loop ss (Some ?rs1) = Inr (Some rs)" and wf: "wf_set rs"
    and tot: "total_points (points rs) = total_points (points ?rs1) + (\<Sum>s\<leftarrow>ss. total_points (points (sheet_info s)))"
    and pts: "\<forall>k. points_for rs k = points_for ?rs1 k + (\<Sum>s\<leftarrow>ss. points_for (sheet_info s) k)"
    and nms: "\<forall>k. map_of (names rs) k =
              (case map_of (names ?rs1) k of Some v \<Rightarrow> Some v | None \<Rightarrow> first_name ss k)"
    and keys: "fst ` set (names rs) = fst ` set (names ?rs1) \<union> (\<Union>s \<in> set ss. fst ` set (names (sheet_info s)))"
    by blast
  have absent: "\<And>k. k \<notin> fst ` set (names (sheet_info s)) \<Longrightarrow> points_for (sheet_info s) k = 0"
  proof -
    fix k assume "k \<notin> fst ` set (names (sheet_info s))"
    then have "map_of (names (sheet_info s)) k = None" by (simp add: map_of_eq_None_iff)
    then show "points_for (sheet_info s) k = 0"
      using wf_set_names_None [OF wi] by (simp add: points_for_absent)
  qed
  have 0: "ids_loop (s # ss) (Some rs0) = Inr (Some rs)"
    using loop by (simp add: getResponsesFromEvent_info [OF ok])
  have 2: "total_points (points rs) =
             total_points (points rs0) + (\<Sum>s\<leftarrow>s # ss. total_points (points (sheet_info s)))"
    using tot e2 by simp
  have 3: "\<forall>k. points_for rs k = points_for rs0 k + (\<Sum>s\<leftarrow>s # ss. points_for (sheet_info s) k)"
  proof
    fix k
    have "points_for ?rs1 k = points_for rs0 k + points_for (sheet_info s) k"
      using e3 [of k] absent [of k] by (cases "k \<in> fst ` set (names (sheet_info s))") auto
    then show "points_for rs k = points_for rs0 k + (\<Sum>s\<leftarrow>s # ss. points_for (sheet_info s) k)"
      using pts by simp
  qed
  have 4: "\<forall>k. map_of (names rs) k =
              (case map_of (names rs0) k of Some v \<Rightarrow> Some v | None \<Rightarrow> first_name (s # ss) k)"
  proof
    fix k
    have n1: "map_of (names ?rs1) k =
            (if map_of (names rs0) k = None \<and> k \<in> fst ` set (names (sheet_info s))
             then Some (js_get (names (sheet_info s)) k) else map_of (names rs0) k)"
      by (rule e4)
    show "map_of (names rs) k =
              (case map_of (names rs0) k of Some v \<Rightarrow> Some v | None \<Rightarrow> first_name (s # ss) k)"
    proof (cases "map_of (names rs0) k")
      case (Some v)
      then show ?thesis using nms n1 by simp
    next
      case None
      show ?thesis
      proof (cases "map_of (names (sheet_info s)) k")
        case (Some v)
        then have "k \<in> fst ` set (names (sheet_info s))" by (metis map_of_eq_None_iff option.distinct(1))
        then show ?thesis using nms n1 None Some by (simp add: js_get_def)
      next
        case N: None
        then have "k \<notin> fst ` set (names (sheet_info s))" by (simp add: map_of_eq_None_iff)
        then show ?thesis using nms n1 None N by simp
      qed
    qed
  qed
  have 5: "fst ` set (names rs) =
             fst ` set (names rs0) \<union> (\<Union>s \<in> set (s # ss). fst ` set (names (sheet_info s)))"
    using keys e5 by auto
  from 0 wf 2 3 4 5 show ?case by blast
qed

lemma updateMemberPoints_aggregate:
  "updateMemberPoints f ms =
     (case aggregate f of
        Inl e \<Rightarrow> (Some e, clear_A3_B1000 ms)
      | Inr rs \<Rightarrow> (None, write_ledger (map fst (names rs)) rs (clear_A3_B1000 ms)))"
  by (simp add: updateMemberPoints_def aggregate_def Let_def split: sum.splits option.splits)

lemma length_fst_write_row:
  "length (fst (write_row emails rs i st)) = max (length (fst st)) (Suc i)"
  by (cases st) (simp add: write_row_def Let_def)

lemma length_fst_fold_write_row:
  "length (fst (fold (write_row emails rs) [0..<k] st)) = max (length (fst st)) k"
  by (induction k) (auto simp add: length_fst_write_row)

lemma length_fold_row_update:
  "\<forall>i \<in> set ix. i < length s \<Longrightarrow> length (fold (\<lambda>idx s. row_update idx g s) ix s) = length s"
proof (induction ix arbitrary: s)
  case Nil
  then show ?case by simp
next
  case (Cons a ix)
  have len: "length (row_update a g s) = length s" using Cons.prems by (simp add: max_def)
  have "\<forall>i \<in> set ix. i < length (row_update a g s)" using Cons.prems len by simp
  from Cons.IH [OF this] len show ?case by simp
qed

lemma write_ledger_tier:
  assumes num: "\<forall>e \<in> set emails. js_get (points rs) e = JNum (tot e)"
    and i: "i < length emails"
  shows "mp_background (row_at (write_ledger emails rs sheet) i) =
           tier_color (spec_tier (tot (emails ! i)) (Max (tot ` set emails)))"
proof -
  let ?S = "tot ` set emails"
  have fin: "finite ?S" and ne: "?S \<noteq> {}" using i by auto
  have mem: "tot (emails ! i) \<in> ?S" using i by simp
  have le: "tot (emails ! i) \<le> Max ?S" using mem fin by simp
  have eq: "15 \<le> Max (insert 0 ?S) \<or> 15 \<le> Max ?S \<Longrightarrow> Max (insert 0 ?S) = Max ?S"
    using Max_insert0 [OF fin ne] by blast
  have iff: "(15 \<le> Max (insert 0 ?S) \<and> tot (emails ! i) = Max (insert 0 ?S)) =
             (15 \<le> Max ?S \<and> tot (emails ! i) = Max ?S)"
    using eq by metis
  show ?thesis
    unfolding write_ledger_background [OF num i] iff
    using le by (auto simp add: spec_tier_def base_color_def)
qed

lemma write_ledger_length:
  assumes num: "\<forall>e \<in> set emails. js_get (points rs) e = JNum (tot e)"
  shows "length (write_ledger emails rs sheet) = max (length sheet) (length emails)"
proof -
  define st where "st = fold (write_row emails rs) [0..<length emails] (sheet, JNum 0, [])"
  define m where "m = Max (insert 0 (tot ` set emails))"
  define ix where "ix = filter (\<lambda>j. tot (emails ! j) = m) [0..<length emails]"
  have snd_st: "snd st = (JNum m, ix)"
    unfolding st_def m_def ix_def by (simp add: snd_fold_write_row_num [OF num order_refl])
  have st: "st = (fst st, JNum m, ix)" using snd_st by (metis prod.collapse)
  have len: "length (fst st) = max (length sheet) (length emails)"
    unfolding st_def by (simp add: length_fst_fold_write_row)
  have wl: "write_ledger emails rs sheet = style_top (JNum m) ix (fst st)"
    unfolding write_ledger_def write_loop_fold st_def [symmetric] by (subst st) simp
  have "\<forall>i \<in> set ix. i < length (fst st)" unfolding ix_def len by auto
  then show ?thesis
    unfolding wl using len by (simp add: style_top_def length_fold_row_update)
qed

lemma write_ledger_row_at:
  assumes num: "\<forall>e \<in> set emails. js_get (points rs) e = JNum (tot e)"
  shows "row_at (write_ledger emails rs sheet) j =
     (if j < length emails
      then \<lparr>mp_A = js_get (names rs) (emails ! j), mp_B = JNum (tot (emails ! j)), mp_C = JStr (emails ! j),
            mp_background = tier_color (spec_tier (tot (emails ! j)) (Max (tot ` set emails)))\<rparr>
      else row_at sheet j)"
proof -
  define st where "st = fold (write_row emails rs) [0..<length emails] (sheet, JNum 0, [])"
  define m where "m = Max (insert 0 (tot ` set emails))"
  define ix where "ix = filter (\<lambda>j. tot (emails ! j) = m) [0..<length emails]"
  have snd_st: "snd st = (JNum m, ix)"
    unfolding st_def m_def ix_def by (simp add: snd_fold_write_row_num [OF num order_refl])
  have st: "st = (fst st, JNum m, ix)" using snd_st by (metis prod.collapse)
  have wl: "write_ledger emails rs sheet = style_top (JNum m) ix (fst st)"
    unfolding write_ledger_def write_loop_fold st_def [symmetric] by (subst st) simp
  have row: "row_at (fst st) j = (if j < length emails then written_row emails rs j else row_at sheet j)"
    unfolding st_def by (simp add: fst_fold_write_row)
  show ?thesis
  proof (cases "j < length emails")
    case True
    have get: "js_get (points rs) (emails ! j) = JNum (tot (emails ! j))"
      using num True by simp
    have bg: "mp_background (row_at (write_ledger emails rs sheet) j) =
                tier_color (spec_tier (tot (emails ! j)) (Max (tot ` set emails)))"
      using write_ledger_tier [OF num True] .
    have "mp_A (row_at (write_ledger emails rs sheet) j) = js_get (names rs) (emails ! j)"
      "mp_B (row_at (write_ledger emails rs sheet) j) = JNum (tot (emails ! j))"
      "mp_C (row_at (write_ledger emails rs sheet) j) = JStr (emails ! j)"
      unfolding wl using True
      by (simp_all add: style_top_def row_at_fold_row_update row written_row_def get)
    with bg True show ?thesis by (cases "row_at (write_ledger emails rs sheet) j") simp
  next
    case False
    then have "j \<notin> set ix" unfolding ix_def by auto
    then show ?thesis
      unfolding wl using False by (simp add: style_top_def row_at_fold_row_update row)
  qed
qed

lemma map_row_at: "map (row_at xs) [0..<length xs] = xs"
  by (rule nth_equalityI) (simp_all add: row_at_def)

lemma mp_B_row_at_clear:
  "length ms \<le> 998 \<Longrightarrow> mp_B (row_at (clear_A3_B1000 ms) j) = JStr []"
proof -
  assume len: "length ms \<le> 998"
  have "clear_A3_B1000 ms = map (\<lambda>r. r\<lparr>mp_A := JStr [], mp_B := JStr [], mp_background := WHITE\<rparr>) ms"
    unfolding clear_A3_B1000_def using len by (simp only: take_all drop_all append_Nil2)
  then show ?thesis by (simp add: row_at_def blank_row_def)
qed

lemma entries_write_ledger:
  assumes wf: "wf_set rs" and len: "length ms \<le> 998"
  shows "entries (write_ledger (map fst (names rs)) rs (clear_A3_B1000 ms)) =
           map (ledger_row rs) (map fst (names rs))"
proof -
  define emails where "emails = map fst (names rs)"
  define sheet where "sheet = write_ledger emails rs (clear_A3_B1000 ms)"
  define n where "n = length emails"
  have num: "\<forall>e \<in> set emails. js_get (points rs) e = JNum (points_for rs e)"
    unfolding emails_def using wf_set_info_get(1) [OF wf] by simp
  have L: "length sheet = max (length (clear_A3_B1000 ms)) n"
    unfolding sheet_def n_def by (rule write_ledger_length [OF num])
  have row: "\<And>j. row_at sheet j =
     (if j < n
      then \<lparr>mp_A = js_get (names rs) (emails ! j), mp_B = JNum (points_for rs (emails ! j)),
            mp_C = JStr (emails ! j),
            mp_background = tier_color (spec_tier (points_for rs (emails ! j))
               (Max (points_for rs ` set emails)))\<rparr>
      else row_at (clear_A3_B1000 ms) j)"
    unfolding sheet_def n_def by (rule write_ledger_row_at [OF num])
  have lr: "\<And>j. j < n \<Longrightarrow> row_at sheet j = ledger_row rs (emails ! j)"
  proof -
    fix j assume j: "j < n"
    then have "emails ! j \<in> set emails" unfolding n_def by simp
    with num have "js_get (points rs) (emails ! j) = JNum (points_for rs (emails ! j))" by blast
    then show "row_at sheet j = ledger_row rs (emails ! j)"
      using j by (simp add: row ledger_row_def emails_def)
  qed
  have split: "[0..<length sheet] = [0..<n] @ [n..<length sheet]"
  proof -
    have "n \<le> length sheet" using L by simp
    then show ?thesis by (metis le_add_diff_inverse upt_add_eq_append zero_le)
  qed
  have "entries sheet = entries (map (row_at sheet) [0..<length sheet])"
    by (simp only: map_row_at)
  also have "\<dots> = filter (\<lambda>r. mp_B r \<noteq> JStr []) (map (row_at sheet) [0..<n])
                   @ filter (\<lambda>r. mp_B r \<noteq> JStr []) (map (row_at sheet) [n..<length sheet])"
    by (subst split) (simp add: entries_def)
  also have "filter (\<lambda>r. mp_B r \<noteq> JStr []) (map (row_at sheet) [n..<length sheet]) = []"
    by (auto simp add: filter_empty_conv row mp_B_row_at_clear [OF len])
  also have "filter (\<lambda>r. mp_B r \<noteq> JStr []) (map (row_at sheet) [0..<n]) = map (row_at sheet) [0..<n]"
    by (rule filter_True) (auto simp add: row)
  also have "map (row_at sheet) [0..<n] = map (\<lambda>j. ledger_row rs (emails ! j)) [0..<n]"
    by (rule map_cong) (simp_all add: lr)
  also have "\<dots> = map (ledger_row rs) (map ((!) emails) [0..<n])"
    by simp
  also have "\<dots> = map (ledger_row rs) emails"
    unfolding n_def by (simp only: map_nth)
  finally show ?thesis unfolding sheet_def emails_def by simp
qed

lemma aggregate_effect:
  assumes ok: "list_all source_ok (collect_ids f)" and ne: "collect_ids f \<noteq> []"
  shows "\<exists>rs. aggregate f = Inr rs \<and> wf_set rs
     \<and> total_points (points rs) = (\<Sum>s\<leftarrow>rev (collect_ids f). total_points (points (sheet_info s)))
     \<and> (\<forall>k. points_for rs k = (\<Sum>s\<leftarrow>rev (collect_ids f). points_for (sheet_info s) k))
     \<and> (\<forall>k. map_of (names rs) k = first_name (rev (collect_ids f)) k)
     \<and> fst ` set (names rs) = (\<Union>s \<in> set (collect_ids f). fst ` set (names (sheet_info s)))"
proof -
  obtain s ss where ss: "rev (collect_ids f) = s # ss"
    using ne by (cases "rev (collect_ids f)") auto
  have "list_all source_ok (rev (collect_ids f))" using ok by (simp add: list_all_iff)
  then have oks: "source_ok s" "list_all source_ok ss" unfolding ss by simp_all
  from ids_loop_effect [OF oks(2) wf_set_info [OF oks(1)]] obtain rs where
    loop: "ids_loop ss (Some (sheet_info s)) = Inr (Some rs)" and wf: "wf_set rs"
    and tot: "total_points (points rs) = total_points (points (sheet_info s)) + (\<Sum>s\<leftarrow>ss. total_points (points (sheet_info s)))"
    and pts: "\<forall>k. points_for rs k = points_for (sheet_info s) k + (\<Sum>s\<leftarrow>ss. points_for (sheet_info s) k)"
    and nms: "\<forall>k. map_of (names rs) k =
              (case map_of (names (sheet_info s)) k of Some v \<Rightarrow> Some v | None \<Rightarrow> first_name ss k)"
    and keys: "fst ` set (names rs) = fst ` set (names (sheet_info s)) \<union> (\<Union>s \<in> set ss. fst ` set (names (sheet_info s)))"
    by blast
  have agg: "aggregate f = Inr rs"
    using loop by (simp add: aggregate_def ss getResponsesFromEvent_info [OF oks(1)])
  have set: "set (collect_ids f) = set (s # ss)" using ss by (metis set_rev)
  have 5: "fst ` set (names rs) = (\<Union>s \<in> set (collect_ids f). fst ` set (names (sheet_info s)))"
    unfolding set using keys by simp
  show ?thesis
    using agg wf tot pts nms 5 unfolding ss by auto
qed

lemma ids_loop_unreadable:
  "\<exists>s \<in> set ss. responses s = None \<Longrightarrow> ids_loop ss acc = Inl TypeError"
proof (induction ss arbitrary: acc)
  case Nil
  then show ?case by simp
next
  case (Cons s ss)
  show ?case
  proof (cases "responses s")
    case None
    then show ?thesis by (simp add: getResponsesFromEvent_def)
  next
    case (Some rows)
    then have "\<exists>s \<in> set ss. responses s = None" using Cons.prems by auto
    from Cons.IH [OF this] Some show ?thesis
      by (simp add: getResponsesFromEvent_def split: option.splits)
  qed
qed

lemma row_at_clear:
  "row_at (clear_A3_B1000 ms) j =
     (if j < 998 then (row_at ms j)\<lparr>mp_A := JStr [], mp_B := JStr [], mp_background := WHITE\<rparr>
      else row_at ms j)"
  by (auto simp add: row_at_def clear_A3_B1000_def blank_row_def nth_append min_def)

subsection \<open>The ledger of a readable catalogue\<close>

lemma sheet_info_fold:
  assumes "source_ok s"
  shows "sheet_info s =
     \<lparr>names = fold (\<lambda>r. AList.update (email_of r) (JStr (resp_A r))) (source_records s) [],
      points = fold (\<lambda>r. AList.update (email_of r) (JNum (attendance_points s r))) (source_records s) []\<rparr>"
proof -
  from assms obtain rows d where r: "responses s = Some rows" "range_F2 rows = Num d"
    by (rule source_ok_cases)
  have "\<And>r. record_points d r = attendance_points s r"
    by (simp add: record_points_def attendance_points_def default_points_def r)
  then show ?thesis
    by (simp add: sheet_info_def r event_info_num [OF r(2)] source_records_def)
qed

lemma map_of_map_find:
  "map_of (map (\<lambda>r. (k r, v r)) xs) x = map_option v (find (\<lambda>r. k r = x) xs)"
  by (induction xs) auto

lemma sheet_info_keys:
  assumes "source_ok s"
  shows "fst ` set (names (sheet_info s)) = email_of ` set (source_records s)"
  by (simp add: sheet_info_fold [OF assms] keys_set_fold_update)

lemma sheet_info_names:
  assumes "source_ok s"
  shows "map_of (names (sheet_info s)) k = map_option (\<lambda>r. JStr (resp_A r)) (last_record k s)"
  by (simp add: sheet_info_fold [OF assms] map_of_fold_update last_record_def rev_map map_of_map_find)

lemma sheet_info_points:
  assumes "source_ok s"
  shows "map_of (points (sheet_info s)) k = map_option (\<lambda>r. JNum (attendance_points s r)) (last_record k s)"
  by (simp add: sheet_info_fold [OF assms] map_of_fold_update last_record_def rev_map map_of_map_find)

lemma sheet_info_points_for:
  assumes "source_ok s"
  shows "points_for (sheet_info s) k =
           (case last_record k s of None \<Rightarrow> 0 | Some r \<Rightarrow> attendance_points s r)"
  by (simp add: points_for_def js_get_def sheet_info_points [OF assms] split: option.splits)


lemma entries_clear: "length ms \<le> 998 \<Longrightarrow> entries (clear_A3_B1000 ms) = []"
proof -
  assume len: "length ms \<le> 998"
  have "clear_A3_B1000 ms = map (\<lambda>r. r\<lparr>mp_A := JStr [], mp_B := JStr [], mp_background := WHITE\<rparr>) ms"
    unfolding clear_A3_B1000_def using len by (simp only: take_all drop_all append_Nil2)
  then show ?thesis by (simp add: entries_def filter_empty_conv)
qed

lemma aggregate_empty: "collect_ids f = [] \<Longrightarrow> aggregate f = Inl TypeError"
  by (simp add: aggregate_def)

lemma ledger_of_aggregate:
  assumes ok: "list_all source_ok (collect_ids f)" and ne: "collect_ids f \<noteq> []"
    and len: "length ms \<le> 998"
  shows "\<exists>rs. wf_set rs
    \<and> fst (updateMemberPoints f ms) = None
    \<and> entries (snd (updateMemberPoints f ms)) = map (ledger_row rs) (map fst (names rs))
    \<and> total_points (points rs) = (\<Sum>s\<leftarrow>rev (collect_ids f). total_points (points (sheet_info s)))
    \<and> (\<forall>k. points_for rs k = (\<Sum>s\<leftarrow>rev (collect_ids f). points_for (sheet_info s) k))
    \<and> (\<forall>k. map_of (names rs) k = first_name (rev (collect_ids f)) k)
    \<and> fst ` set (names rs) = (\<Union>s \<in> set (collect_ids f). fst ` set (names (sheet_info s)))"
proof -
  from aggregate_effect [OF ok ne] obtain rs where
    a: "aggregate f = Inr rs" and wf: "wf_set rs"
    and rest: "total_points (points rs) = (\<Sum>s\<leftarrow>rev (collect_ids f). total_points (points (sheet_info s)))"
      "\<forall>k. points_for rs k = (\<Sum>s\<leftarrow>rev (collect_ids f). points_for (sheet_info s) k)"
      "\<forall>k. map_of (names rs) k = first_name (rev (collect_ids f)) k"
      "fst ` set (names rs) = (\<Union>s \<in> set (collect_ids f). fst ` set (names (sheet_info s)))"
    by blast
  have u: "updateMemberPoints f ms = (None, write_ledger (map fst (names rs)) rs (clear_A3_B1000 ms))"
    by (simp add: updateMemberPoints_aggregate a)
  have 1: "fst (updateMemberPoints f ms) = None" by (simp add: u)
  have 2: "entries (snd (updateMemberPoints f ms)) = map (ledger_row rs) (map fst (names rs))"
    by (simp add: u entries_write_ledger [OF wf len])
  from wf 1 2 rest show ?thesis by blast
qed


lemma lower_char_not_upper: "lower_char c \<notin> set ''ABCDEFGHIJKLMNOPQRSTUVWXYZ''"
  by (simp add: lower_char_def)

lemma toLowerCase_no_upper:
  "list_all (\<lambda>c. c \<notin> set ''ABCDEFGHIJKLMNOPQRSTUVWXYZ'') (toLowerCase s)"
  unfolding toLowerCase_def list_all_iff using lower_char_not_upper by auto

lemma toLowerCase_idem: "toLowerCase (toLowerCase s) = toLowerCase s"
  by (simp add: toLowerCase_def lower_char_def)

lemma last_record_SomeD:
  "last_record k s = Some rec \<Longrightarrow> rec \<in> set (source_records s) \<and> email_of rec = k"
  unfolding last_record_def by (auto simp add: find_Some_iff) (metis nth_mem set_rev length_rev)

lemma first_name_find:
  "list_all source_ok ss \<Longrightarrow>
   first_name ss k =
     (case find (\<lambda>s. last_record k s \<noteq> None) ss of
        None \<Rightarrow> None
      | Some s \<Rightarrow> map_option (\<lambda>r. JStr (resp_A r)) (last_record k s))"
  by (induction ss) (auto simp add: sheet_info_names split: option.splits)

lemma sum_list_map_rev:
  fixes h :: "'a \<Rightarrow> int"
  shows "(\<Sum>x\<leftarrow>rev xs. h x) = (\<Sum>x\<leftarrow>xs. h x)"
  by (metis rev_map sum_list_rev)

lemma entries_empty_catalogue:
  assumes "collect_ids f = []" "length ms \<le> 998"
  shows "entries (snd (updateMemberPoints f ms)) = []"
  by (simp add: updateMemberPoints_aggregate aggregate_empty [OF assms(1)] entries_clear [OF assms(2)])

lemma ledger_entry:
  assumes ok: "list_all source_ok (collect_ids f)" and len: "length ms \<le> 998"
    and r: "r \<in> set (entries (snd (updateMemberPoints f ms)))"
  shows "\<exists>k s rec. mp_C r = JStr k
     \<and> find (\<lambda>s. last_record k s \<noteq> None) (rev (collect_ids f)) = Some s
     \<and> last_record k s = Some rec
     \<and> mp_A r = JStr (resp_A rec)
     \<and> mp_B r = JNum (\<Sum>s\<leftarrow>collect_ids f.
                            case last_record k s of None \<Rightarrow> 0 | Some rec \<Rightarrow> attendance_points s rec)"
proof -
  have ne: "collect_ids f \<noteq> []"
    using r entries_empty_catalogue [OF _ len, of f] by auto
  from ledger_of_aggregate [OF ok ne len] obtain rs where
    wf: "wf_set rs"
    and en: "entries (snd (updateMemberPoints f ms)) = map (ledger_row rs) (map fst (names rs))"
    and pts: "\<forall>k. points_for rs k = (\<Sum>s\<leftarrow>rev (collect_ids f). points_for (sheet_info s) k)"
    and nms: "\<forall>k. map_of (names rs) k = first_name (rev (collect_ids f)) k"
    by auto
  from r obtain k where k: "k \<in> fst ` set (names rs)" and rk: "r = ledger_row rs k"
    unfolding en by auto
  have okr: "list_all source_ok (rev (collect_ids f))" using ok by (simp add: list_all_iff)
  have "map_of (names rs) k \<noteq> None" using k by (simp add: map_of_eq_None_iff)
  then obtain v where v: "map_of (names rs) k = Some v" by blast
  then have fn: "first_name (rev (collect_ids f)) k = Some v" using nms by simp
  then obtain s rec where s: "find (\<lambda>s. last_record k s \<noteq> None) (rev (collect_ids f)) = Some s"
    and rec: "last_record k s = Some rec" and vv: "v = JStr (resp_A rec)"
    unfolding first_name_find [OF okr] by (auto split: option.splits)
  have A: "mp_A r = JStr (resp_A rec)" by (simp add: rk ledger_row_def js_get_def v vv)
  have "\<And>s. s \<in> set (collect_ids f) \<Longrightarrow> points_for (sheet_info s) k =
           (case last_record k s of None \<Rightarrow> 0 | Some rec \<Rightarrow> attendance_points s rec)"
    using ok by (simp add: list_all_iff sheet_info_points_for)
  then have "map (\<lambda>s. points_for (sheet_info s) k) (collect_ids f) =
             map (\<lambda>s. case last_record k s of None \<Rightarrow> 0 | Some rec \<Rightarrow> attendance_points s rec) (collect_ids f)"
    by (intro map_cong [OF refl])
  then have "(\<Sum>s\<leftarrow>collect_ids f. points_for (sheet_info s) k) = (\<Sum>s\<leftarrow>collect_ids f.
                 case last_record k s of None \<Rightarrow> 0 | Some rec \<Rightarrow> attendance_points s rec)"
    by (rule arg_cong)
  moreover have "points_for rs k = (\<Sum>s\<leftarrow>collect_ids f. points_for (sheet_info s) k)"
    using pts by (simp only: sum_list_map_rev)
  ultimately have "points_for rs k = (\<Sum>s\<leftarrow>collect_ids f.
                 case last_record k s of None \<Rightarrow> 0 | Some rec \<Rightarrow> attendance_points s rec)"
    by simp
  moreover have "js_get (points rs) k = JNum (points_for rs k)"
    by (rule wf_set_info_get(1) [OF wf k])
  ultimately have B: "mp_B r = JNum (\<Sum>s\<leftarrow>collect_ids f.
                 case last_record k s of None \<Rightarrow> 0 | Some rec \<Rightarrow> attendance_points s rec)"
    by (simp add: rk ledger_row_def)
  have C: "mp_C r = JStr k" by (simp add: rk ledger_row_def)
  from A B C s rec show ?thesis by blast
qed

lemma ledger_set_facts:
  assumes ok: "list_all source_ok (collect_ids f)" and ne: "collect_ids f \<noteq> []"
  shows "aggregate f = Inr (ledger_set f)"
    and "wf_set (ledger_set f)"
    and "total_points (points (ledger_set f)) = (\<Sum>s\<leftarrow>collect_ids f. total_points (points (sheet_info s)))"
    and "points_for (ledger_set f) k = (\<Sum>s\<leftarrow>collect_ids f. points_for (sheet_info s) k)"
    and "map_of (names (ledger_set f)) k = first_name (rev (collect_ids f)) k"
    and "fst ` set (names (ledger_set f)) = (\<Union>s \<in> set (collect_ids f). fst ` set (names (sheet_info s)))"
proof -
  from aggregate_effect [OF ok ne] obtain rs where
    a: "aggregate f = Inr rs" and wf: "wf_set rs"
    and tot: "total_points (points rs) = (\<Sum>s\<leftarrow>rev (collect_ids f). total_points (points (sheet_info s)))"
    and pts: "\<forall>k. points_for rs k = (\<Sum>s\<leftarrow>rev (collect_ids f). points_for (sheet_info s) k)"
    and nms: "\<forall>k. map_of (names rs) k = first_name (rev (collect_ids f)) k"
    and keys: "fst ` set (names rs) = (\<Union>s \<in> set (collect_ids f). fst ` set (names (sheet_info s)))"
    by blast
  have eq: "ledger_set f = rs" by (simp add: ledger_set_def a)
  show "aggregate f = Inr (ledger_set f)" by (simp add: eq a)
  show "wf_set (ledger_set f)" by (simp add: eq wf)
  show "total_points (points (ledger_set f)) = (\<Sum>s\<leftarrow>collect_ids f. total_points (points (sheet_info s)))"
    unfolding eq tot by (rule sum_list_map_rev)
  show "points_for (ledger_set f) k = (\<Sum>s\<leftarrow>collect_ids f. points_for (sheet_info s) k)"
    unfolding eq using pts by (simp only: sum_list_map_rev)
  show "map_of (names (ledger_set f)) k = first_name (rev (collect_ids f)) k"
    unfolding eq using nms by simp
  show "fst ` set (names (ledger_set f)) = (\<Union>s \<in> set (collect_ids f). fst ` set (names (sheet_info s)))"
    unfolding eq by (rule keys)
qed

lemma entries_ledger_set:
  assumes ok: "list_all source_ok (collect_ids f)" and ne: "collect_ids f \<noteq> []"
    and len: "length ms \<le> 998"
  shows "fst (updateMemberPoints f ms) = None"
    and "entries (snd (updateMemberPoints f ms)) = map (ledger_row (ledger_set f)) (map fst (names (ledger_set f)))"
proof -
  note a = ledger_set_facts(1) [OF ok ne] and wf = ledger_set_facts(2) [OF ok ne]
  have u: "updateMemberPoints f ms =
      (None, write_ledger (map fst (names (ledger_set f))) (ledger_set f) (clear_A3_B1000 ms))"
    by (simp add: updateMemberPoints_aggregate a)
  show "fst (updateMemberPoints f ms) = None" by (simp add: u)
  show "entries (snd (updateMemberPoints f ms)) = map (ledger_row (ledger_set f)) (map fst (names (ledger_set f)))"
    by (simp add: u entries_write_ledger [OF wf len])
qed






subsection \<open>The lookup\<close>















subsection \<open>Correction of an email\<close>

lemma replace_email_loop_responses:
  "replace_email_loop resp_B (\<lambda>v r. r\<lparr>resp_B := v\<rparr>) b a rows =
     map (rename_email b a) (records rows) @ dropWhile (\<lambda>r. email_of r \<noteq> []) rows"
  by (induction rows) (simp_all add: records_def email_of_def rename_email_def Let_def)

lemma email_of_rename:
  "toLowerCase b = b \<Longrightarrow> email_of (rename_email b a r) = (if email_of r = a then b else email_of r)"
  by (simp add: rename_email_def email_of_def)

lemma takeWhile_dropWhile_Nil: "takeWhile P (dropWhile P xs) = []"
  by (induction xs) simp_all

lemma records_replace:
  assumes "toLowerCase b = b" "b \<noteq> []"
  shows "records (replace_email_loop resp_B (\<lambda>v r. r\<lparr>resp_B := v\<rparr>) b a rows) =
           map (rename_email b a) (records rows)"
proof -
  have all: "\<forall>r \<in> set (map (rename_email b a) (records rows)). email_of r \<noteq> []"
  proof
    fix r assume "r \<in> set (map (rename_email b a) (records rows))"
    then obtain r0 where r0: "r0 \<in> set (records rows)" and r: "r = rename_email b a r0" by auto
    have "email_of r0 \<noteq> []" using r0 unfolding records_def by (auto dest: set_takeWhileD)
    then show "email_of r \<noteq> []" using assms by (simp add: r email_of_rename)
  qed
  have "takeWhile (\<lambda>r. email_of r \<noteq> [])
          (map (rename_email b a) (records rows) @ dropWhile (\<lambda>r. email_of r \<noteq> []) rows) =
          map (rename_email b a) (records rows)
          @ takeWhile (\<lambda>r. email_of r \<noteq> []) (dropWhile (\<lambda>r. email_of r \<noteq> []) rows)"
    by (rule takeWhile_append2) (use all in blast)
  then have "takeWhile (\<lambda>r. email_of r \<noteq> [])
          (map (rename_email b a) (records rows) @ dropWhile (\<lambda>r. email_of r \<noteq> []) rows) =
          map (rename_email b a) (records rows)"
    by (simp only: takeWhile_dropWhile_Nil append_Nil2)
  then show ?thesis
    unfolding replace_email_loop_responses by (subst records_def)

qed

lemma range_F2_replace:
  "range_F2 (replace_email_loop resp_B (\<lambda>v r. r\<lparr>resp_B := v\<rparr>) b a rows) = range_F2 rows"
  by (cases rows) (simp_all add: range_F2_def Let_def)

lemma replaceEmailInSheet_ok:
  assumes "form_responses_1 s = Some form" "responses s = Some rows"
  shows "replaceEmailInSheet b a s =
     (None, s\<lparr>form_responses_1 := Some (replace_email_loop form_C (\<lambda>v r. r\<lparr>form_C := v\<rparr>) b a form),
              responses := Some (replace_email_loop resp_B (\<lambda>v r. r\<lparr>resp_B := v\<rparr>) b a rows)\<rparr>)"
  by (simp add: replaceEmailInSheet_def assms Let_def)

lemma renamed_facts:
  assumes ok: "source_ok s" and form: "form_responses_1 s \<noteq> None"
    and b: "toLowerCase b = b" "b \<noteq> []"
  shows "fst (replaceEmailInSheet b a s) = None"
    and "source_ok (renamed b a s)"
    and "source_records (renamed b a s) = map (rename_email b a) (source_records s)"
    and "default_points (renamed b a s) = default_points s"
proof -
  from ok obtain rows d where rows: "responses s = Some rows" "range_F2 rows = Num d"
    by (rule source_ok_cases)
  from form obtain fr where fr: "form_responses_1 s = Some fr" by blast
  note eq = replaceEmailInSheet_ok [OF fr rows(1), of b a]
  show "fst (replaceEmailInSheet b a s) = None" by (simp add: eq)
  show "source_ok (renamed b a s)"
    by (simp add: renamed_def eq source_ok_def range_F2_replace rows)
  show "source_records (renamed b a s) = map (rename_email b a) (source_records s)"
    by (simp add: renamed_def eq source_records_def rows records_replace [OF b])
  show "default_points (renamed b a s) = default_points s"
    by (simp add: renamed_def eq default_points_def range_F2_replace rows)
qed

lemma attendance_points_renamed:
  assumes ok: "source_ok s" and form: "form_responses_1 s \<noteq> None"
    and b: "toLowerCase b = b" "b \<noteq> []"
  shows "attendance_points (renamed b a s) (rename_email b a r) = attendance_points s r"
  by (simp add: attendance_points_def renamed_facts(4) [OF ok form b] rename_email_def)

lemma find_map_option: "find P (map f xs) = map_option f (find (\<lambda>x. P (f x)) xs)"
  by (induction xs) simp_all

lemma find_cong_set: "(\<And>x. x \<in> set xs \<Longrightarrow> P x = Q x) \<Longrightarrow> find P xs = find Q xs"
  by (induction xs) simp_all

lemma last_record_None: "(last_record k s = None) = (k \<notin> email_of ` set (source_records s))"
  by (auto simp add: last_record_def find_None_iff)

lemma last_record_renamed:
  assumes ok: "source_ok s" and form: "form_responses_1 s \<noteq> None"
    and b: "toLowerCase b = b" "b \<noteq> []"
  shows "last_record k (renamed b a s) =
           map_option (rename_email b a)
             (find (\<lambda>r. (if email_of r = a then b else email_of r) = k) (rev (source_records s)))"
  by (simp only: last_record_def renamed_facts(3) [OF ok form b] rev_map find_map_option
        email_of_rename [OF b(1)])

lemma points_for_renamed:
  assumes ok: "source_ok s" and form: "form_responses_1 s \<noteq> None"
    and b: "toLowerCase b = b" "b \<noteq> []" and ab: "a \<noteq> b"
    and apart: "a \<notin> email_of ` set (source_records s) \<or> b \<notin> email_of ` set (source_records s)"
  shows "points_for (sheet_info (renamed b a s)) b = points_for (sheet_info s) a + points_for (sheet_info s) b"
proof -
  note ok' = renamed_facts(2) [OF ok form b, of a]
  note ap = attendance_points_renamed [OF ok form b, of a]
  have after: "points_for (sheet_info (renamed b a s)) b =
      (case find (\<lambda>r. (if email_of r = a then b else email_of r) = b) (rev (source_records s)) of
         None \<Rightarrow> 0 | Some r \<Rightarrow> attendance_points s r)"
    unfolding sheet_info_points_for [OF ok'] last_record_renamed [OF ok form b]
    by (simp add: ap split: option.splits)
  from apart show ?thesis
  proof
    assume na: "a \<notin> email_of ` set (source_records s)"
    have "find (\<lambda>r. (if email_of r = a then b else email_of r) = b) (rev (source_records s)) =
          find (\<lambda>r. email_of r = b) (rev (source_records s))"
      by (rule find_cong_set) (use na in auto)
    moreover have "points_for (sheet_info s) a = 0"
      using na unfolding sheet_info_points_for [OF ok] by (simp add: last_record_None [symmetric])
    ultimately show ?thesis
      unfolding after by (simp add: sheet_info_points_for [OF ok] last_record_def)
  next
    assume nb: "b \<notin> email_of ` set (source_records s)"
    have "find (\<lambda>r. (if email_of r = a then b else email_of r) = b) (rev (source_records s)) =
          find (\<lambda>r. email_of r = a) (rev (source_records s))"
      by (rule find_cong_set) (use nb in auto)
    moreover have "points_for (sheet_info s) b = 0"
      using nb unfolding sheet_info_points_for [OF ok] by (simp add: last_record_None [symmetric])
    ultimately show ?thesis
      unfolding after by (simp add: sheet_info_points_for [OF ok] last_record_def)
  qed
qed

lemma keys_renamed:
  assumes ok: "source_ok s" and form: "form_responses_1 s \<noteq> None"
    and b: "toLowerCase b = b" "b \<noteq> []"
  shows "fst ` set (names (sheet_info (renamed b a s))) =
           (\<lambda>k. if k = a then b else k) ` fst ` set (names (sheet_info s))"
proof -
  note ok' = renamed_facts(2) [OF ok form b, of a]
  have "email_of ` set (map (rename_email b a) (source_records s)) =
        (\<lambda>r. email_of (rename_email b a r)) ` set (source_records s)"
    by (simp only: set_map image_image)
  also have "\<dots> = (\<lambda>r. if email_of r = a then b else email_of r) ` set (source_records s)"
    by (simp only: email_of_rename [OF b(1)])
  also have "\<dots> = (\<lambda>k. if k = a then b else k) ` email_of ` set (source_records s)"
    by (simp only: image_image)
  finally have "email_of ` set (map (rename_email b a) (source_records s)) =
        (\<lambda>k. if k = a then b else k) ` email_of ` set (source_records s)" .
  then show ?thesis
    by (simp only: sheet_info_keys [OF ok'] sheet_info_keys [OF ok] renamed_facts(3) [OF ok form b])
qed

lemma each_sheet_ok:
  "\<forall>s \<in> set ss. fst (operation s) = None \<Longrightarrow>
   each_sheet operation ss = (None, map (\<lambda>s. snd (operation s)) ss)"
  by (induction ss) (auto split: prod.splits option.splits)

lemma each_subfolder_ok:
  "\<forall>s \<in> set (concat subs). fst (operation s) = None \<Longrightarrow>
   each_subfolder operation subs = (None, map (map (\<lambda>s. snd (operation s))) subs)"
  by (induction subs) (auto simp add: each_sheet_ok split: prod.splits option.splits)

lemma each_file_ok:
  assumes "\<forall>s \<in> set (collect_ids f). fst (operation s) = None"
  shows "each_file operation f =
     (None, \<lparr>folder_files = map (\<lambda>s. snd (operation s)) (folder_files f),
              folder_subfolders = map (map (\<lambda>s. snd (operation s))) (folder_subfolders f)\<rparr>)"
proof -
  have 1: "\<forall>s \<in> set (folder_files f). fst (operation s) = None"
    and 2: "\<forall>s \<in> set (concat (folder_subfolders f)). fst (operation s) = None"
    using assms by (auto simp add: collect_ids_def)
  show ?thesis
    by (simp add: each_file_def each_sheet_ok [OF 1] each_subfolder_ok [OF 2])
qed

lemma collect_ids_map:
  "collect_ids \<lparr>folder_files = map g (folder_files f), folder_subfolders = map (map g) (folder_subfolders f)\<rparr> =
     map g (collect_ids f)"
  by (simp add: collect_ids_def map_concat)

lemma filter_eq_distinct:
  "distinct xs \<Longrightarrow> filter (\<lambda>e. e = k) xs = (if k \<in> set xs then [k] else [])"
  by (induction xs) auto

lemma find_eq_member:
  "find (\<lambda>e. e = k) xs = (if k \<in> set xs then Some k else None)"
  by (induction xs) auto

lemma record_email_nonempty:
  "k \<in> email_of ` set (source_records s) \<Longrightarrow> k \<noteq> []"
proof -
  assume "k \<in> email_of ` set (source_records s)"
  then obtain r where r: "r \<in> set (source_records s)" and k: "k = email_of r" by blast
  show "k \<noteq> []"
  proof (cases "responses s")
    case None
    then show ?thesis using r by (simp add: source_records_def)
  next
    case (Some rows)
    then have "r \<in> set (takeWhile (\<lambda>r. email_of r \<noteq> []) rows)"
      using r by (simp add: source_records_def records_def)
    then have "email_of r \<noteq> []" by (rule set_takeWhileD [THEN conjunct2])
    then show ?thesis by (simp add: k)
  qed
qed

lemma mp_C_ledger_row [simp]: "mp_C (ledger_row rs e) = JStr e"
  by (simp add: ledger_row_def)

lemma filter_ledger_rows:
  "filter (\<lambda>r. mp_C r = JStr k) (map (ledger_row rs) es) = map (ledger_row rs) (filter (\<lambda>e. e = k) es)"
  by (induction es) simp_all

lemma find_ledger_rows:
  "find (\<lambda>r. mp_C r = JStr k) (map (ledger_row rs) es) = map_option (ledger_row rs) (find (\<lambda>e. e = k) es)"
  by (induction es) simp_all

lemma filter_entries_email:
  assumes ok: "list_all source_ok (collect_ids f)" and ne: "collect_ids f \<noteq> []"
    and len: "length ms \<le> 998"
  shows "filter (\<lambda>r. mp_C r = JStr k) (entries (snd (updateMemberPoints f ms))) =
           (if k \<in> fst ` set (names (ledger_set f)) then [ledger_row (ledger_set f) k] else [])"
proof -
  note wf = ledger_set_facts(2) [OF ok ne]
  have d: "distinct (map fst (names (ledger_set f)))" by (rule wf_set_distinct_names [OF wf])
  show ?thesis
  proof (cases "k \<in> fst ` set (names (ledger_set f))")
    case True
    then have "k \<in> set (map fst (names (ledger_set f)))" by simp
    then show ?thesis
      unfolding entries_ledger_set(2) [OF ok ne len] filter_ledger_rows filter_eq_distinct [OF d]
      using True by simp
  next
    case False
    then have "k \<notin> set (map fst (names (ledger_set f)))" by simp
    then show ?thesis
      unfolding entries_ledger_set(2) [OF ok ne len] filter_ledger_rows filter_eq_distinct [OF d]
      using False by simp
  qed
qed

lemma ledger_total_email:
  assumes ok: "list_all source_ok (collect_ids f)" and ne: "collect_ids f \<noteq> []"
    and len: "length ms \<le> 998"
  shows "ledger_total (snd (updateMemberPoints f ms)) k =
           (if k \<in> fst ` set (names (ledger_set f)) then Some (JNum (points_for (ledger_set f) k)) else None)"
proof (cases "k \<in> fst ` set (names (ledger_set f))")
  case True
  note wf = ledger_set_facts(2) [OF ok ne]
  have k: "k \<in> set (map fst (names (ledger_set f)))" using True by simp
  have "js_get (points (ledger_set f)) k = JNum (points_for (ledger_set f) k)"
    by (rule wf_set_info_get(1) [OF wf True])
  then have "mp_B (ledger_row (ledger_set f) k) = JNum (points_for (ledger_set f) k)"
    by (simp add: ledger_row_def)
  then show ?thesis
    unfolding ledger_total_def entries_ledger_set(2) [OF ok ne len] find_ledger_rows find_eq_member
    using True k by simp
next
  case False
  have k: "k \<notin> set (map fst (names (ledger_set f)))" using False by simp
  show ?thesis
    unfolding ledger_total_def entries_ledger_set(2) [OF ok ne len] find_ledger_rows find_eq_member
    using False k by simp
qed

lemma ledger_total_empty:
  assumes "collect_ids f = []" "length ms \<le> 998"
  shows "ledger_total (snd (updateMemberPoints f ms)) k = None"
  by (simp add: ledger_total_def entries_empty_catalogue [OF assms])

lemma sum_list_add_int:
  fixes g h :: "'a \<Rightarrow> int"
  shows "(\<Sum>x\<leftarrow>xs. g x + h x) = (\<Sum>x\<leftarrow>xs. g x) + (\<Sum>x\<leftarrow>xs. h x)"
  by (induction xs) simp_all

lemma renamed_catalogue:
  assumes ok: "list_all (\<lambda>s. source_ok s \<and> form_responses_1 s \<noteq> None) (collect_ids f)"
    and b: "toLowerCase b = b" "b \<noteq> []"
  shows "\<exists>f'. each_file (replaceEmailInSheet b a) f = (None, f')
           \<and> collect_ids f' = map (renamed b a) (collect_ids f)"
proof -
  have "\<forall>s \<in> set (collect_ids f). fst (replaceEmailInSheet b a s) = None"
    using ok renamed_facts(1) [OF _ _ b] by (simp add: list_all_iff)
  from each_file_ok [OF this] show ?thesis
    by (simp add: collect_ids_map renamed_def [abs_def])
qed

lemma renamed_points:
  assumes ok: "list_all (\<lambda>s. source_ok s \<and> form_responses_1 s \<noteq> None) ss"
    and b: "toLowerCase b = b" "b \<noteq> []" and ab: "a \<noteq> b"
    and apart: "list_all (\<lambda>s. a \<notin> email_of ` set (source_records s)
                              \<or> b \<notin> email_of ` set (source_records s)) ss"
  shows "(\<Sum>s\<leftarrow>map (renamed b a) ss. points_for (sheet_info s) b) =
           (\<Sum>s\<leftarrow>ss. points_for (sheet_info s) a) + (\<Sum>s\<leftarrow>ss. points_for (sheet_info s) b)"
proof -
  have each: "\<And>s. s \<in> set ss \<Longrightarrow>
      points_for (sheet_info (renamed b a s)) b = points_for (sheet_info s) a + points_for (sheet_info s) b"
  proof -
    fix s assume s: "s \<in> set ss"
    have 1: "source_ok s" "form_responses_1 s \<noteq> None" using ok s by (simp_all add: list_all_iff)
    have 2: "a \<notin> email_of ` set (source_records s) \<or> b \<notin> email_of ` set (source_records s)"
      using apart s by (simp add: list_all_iff)
    show "points_for (sheet_info (renamed b a s)) b = points_for (sheet_info s) a + points_for (sheet_info s) b"
      by (rule points_for_renamed [OF 1 b ab 2])
  qed
  have "map (\<lambda>s. points_for (sheet_info s) b) (map (renamed b a) ss) =
        map (\<lambda>s. points_for (sheet_info s) a + points_for (sheet_info s) b) ss"
    unfolding map_map comp_def by (rule map_cong [OF refl]) (rule each)
  then have "(\<Sum>s\<leftarrow>map (renamed b a) ss. points_for (sheet_info s) b) =
             (\<Sum>s\<leftarrow>ss. points_for (sheet_info s) a + points_for (sheet_info s) b)"
    by (rule arg_cong)
  then show ?thesis by (simp only: sum_list_add_int)
qed

lemma renamed_keys:
  assumes ok: "list_all (\<lambda>s. source_ok s \<and> form_responses_1 s \<noteq> None) ss"
    and b: "toLowerCase b = b" "b \<noteq> []"
  shows "(\<Union>s \<in> set (map (renamed b a) ss). fst ` set (names (sheet_info s))) =
           (\<lambda>k. if k = a then b else k) ` (\<Union>s \<in> set ss. fst ` set (names (sheet_info s)))"
proof -
  have each: "\<And>s. s \<in> set ss \<Longrightarrow> fst ` set (names (sheet_info (renamed b a s))) =
           (\<lambda>k. if k = a then b else k) ` fst ` set (names (sheet_info s))"
  proof -
    fix s assume s: "s \<in> set ss"
    have 1: "source_ok s" "form_responses_1 s \<noteq> None" using ok s by (simp_all add: list_all_iff)
    show "fst ` set (names (sheet_info (renamed b a s))) =
           (\<lambda>k. if k = a then b else k) ` fst ` set (names (sheet_info s))"
      by (rule keys_renamed [OF 1 b])
  qed
  have "(\<Union>s \<in> set (map (renamed b a) ss). fst ` set (names (sheet_info s))) =
        (\<Union>s \<in> set ss. fst ` set (names (sheet_info (renamed b a s))))"
    by simp
  also have "\<dots> = (\<Union>s \<in> set ss. (\<lambda>k. if k = a then b else k) ` fst ` set (names (sheet_info s)))"
    by (rule SUP_cong [OF refl]) (rule each)
  also have "\<dots> = (\<lambda>k. if k = a then b else k) ` (\<Union>s \<in> set ss. fst ` set (names (sheet_info s)))"
    by (simp only: image_UN)
  finally show ?thesis .
qed

lemma fixEmail_run:
  assumes a: "toLowerCase (OLD_EMAIL_CELL (SHEET w)) = a" and b: "toLowerCase (NEW_EMAIL_CELL (SHEET w)) = b"
    and an: "a \<noteq> []" and bn: "b \<noteq> []"
    and ef: "each_file (replaceEmailInSheet b a) (SHEETS_FOLDER w) = (None, f')"
    and up: "fst (updateMemberPoints f' (memberSheet w)) = None"
  shows "fst (fixEmail w) = None"
    and "memberSheet (snd (fixEmail w)) = snd (updateMemberPoints f' (memberSheet w))"
    and "SHEETS_FOLDER (snd (fixEmail w)) = f'"
proof -
  obtain sheet' where u: "updateMemberPoints f' (memberSheet w) = (None, sheet')"
    using up by (cases "updateMemberPoints f' (memberSheet w)") simp
  have eq: "fixEmail w =
      (None, w\<lparr>SHEETS_FOLDER := f', memberSheet := sheet',
                SHEET := (SHEET w)\<lparr>OLD_EMAIL_CELL := [], NEW_EMAIL_CELL := []\<rparr>\<rparr>)"
    unfolding fixEmail_def a b Let_def using an bn by (simp add: ef u)
  show "fst (fixEmail w) = None" by (simp add: eq)
  show "memberSheet (snd (fixEmail w)) = snd (updateMemberPoints f' (memberSheet w))" by (simp add: eq u)
  show "SHEETS_FOLDER (snd (fixEmail w)) = f'" by (simp add: eq)
qed

section \<open>Tier classification\<close>

text \<open>
  C4. When every total is a number, the row of each entry is coloured by its tier: below 3
  Base, from 3 and below 15 Active, from 15 on Involved, and Most-Involved for every entry
  whose total is the maximum of all totals when that maximum is at least 15. An entry
  with a total below 15 is never coloured Most-Involved.
\<close>

theorem tier_classification:
  assumes num: "\<forall>e \<in> set emails. js_get (points rs) e = JNum (tot e)"
    and i: "i < length emails"
  shows "mp_background (row_at (write_ledger emails rs sheet) i) =
           tier_color (spec_tier (tot (emails ! i)) (Max (tot ` set emails)))
         \<and> (tot (emails ! i) < 15 \<longrightarrow>
              mp_background (row_at (write_ledger emails rs sheet) i) \<noteq> MOST_INVOLVED_MEMBER_COLOR)"
proof -
  let ?S = "tot ` set emails"
  have fin: "finite ?S" and ne: "?S \<noteq> {}" using i by auto
  have mem: "tot (emails ! i) \<in> ?S" using i by simp
  have le: "tot (emails ! i) \<le> Max ?S" using mem fin by simp
  have eq: "15 \<le> Max (insert 0 ?S) \<or> 15 \<le> Max ?S \<Longrightarrow> Max (insert 0 ?S) = Max ?S"
    using Max_insert0 [OF fin ne] by blast
  have iff: "(15 \<le> Max (insert 0 ?S) \<and> tot (emails ! i) = Max (insert 0 ?S)) =
             (15 \<le> Max ?S \<and> tot (emails ! i) = Max ?S)"
    using eq by metis
  show ?thesis
    unfolding write_ledger_background [OF num i] iff
    using le by (auto simp add: spec_tier_def base_color_def)
qed

text \<open>
  Totals 2, 3, 14, 15, 20, 20: the entry with 14 is Active, the one with 15 Involved, the
  last Most-Involved.
\<close>

theorem tier_classification_witness:
  "list_all (\<lambda>e.
      js_get (points \<lparr>names = [], points = map (\<lambda>(e, n). (e, JNum n)) tier_example\<rparr>) e
        = JNum (case map_of tier_example e of Some n \<Rightarrow> n | None \<Rightarrow> 0))
     (map fst tier_example)
   \<and> 3 < length (map fst tier_example)
   \<and> mp_background (row_at (write_ledger (map fst tier_example)
          \<lparr>names = [], points = map (\<lambda>(e, n). (e, JNum n)) tier_example\<rparr> []) 3) = INVOLVED_MEMBER_COLOR
   \<and> mp_background (row_at (write_ledger (map fst tier_example)
          \<lparr>names = [], points = map (\<lambda>(e, n). (e, JNum n)) tier_example\<rparr> []) 5) = MOST_INVOLVED_MEMBER_COLOR
   \<and> mp_background (row_at (write_ledger (map fst tier_example)
          \<lparr>names = [], points = map (\<lambda>(e, n). (e, JNum n)) tier_example\<rparr> []) 2) = ACTIVE_MEMBER_COLOR"
  using tier_classification [of "map fst tier_example"
      "\<lparr>names = [], points = map (\<lambda>(e, n). (e, JNum n)) tier_example\<rparr>"
      "\<lambda>e. case map_of tier_example e of Some n \<Rightarrow> n | None \<Rightarrow> 0" 3 "[]"]
    tier_classification [of "map fst tier_example"
      "\<lparr>names = [], points = map (\<lambda>(e, n). (e, JNum n)) tier_example\<rparr>"
      "\<lambda>e. case map_of tier_example e of Some n \<Rightarrow> n | None \<Rightarrow> 0" 5 "[]"]
    tier_classification [of "map fst tier_example"
      "\<lparr>names = [], points = map (\<lambda>(e, n). (e, JNum n)) tier_example\<rparr>"
      "\<lambda>e. case map_of tier_example e of Some n \<Rightarrow> n | None \<Rightarrow> 0" 2 "[]"]
  by (simp add: tier_example_def js_get_def spec_tier_def)

section \<open>A source that cannot be read\<close>

text \<open>
  C3, as the code has it. If a spreadsheet of the catalogue has no \<^verbatim>\<open>Responses\<close> tab, the
  run throws and writes no row of a new aggregate; but line 215 has already run, so the
  Member Points sheet is the previous one with columns A and B of rows 3 to 1000 blank
  and white. Column C and the rows after row 1000 keep what they held.
\<close>

theorem unreadable_source_aborts_after_clearing:
  assumes "\<exists>s \<in> set (collect_ids f). responses s = None"
  shows "updateMemberPoints f ms = (Some TypeError, clear_A3_B1000 ms)
         \<and> (\<forall>j. row_at (clear_A3_B1000 ms) j =
                (if j < 998 then (row_at ms j)\<lparr>mp_A := JStr [], mp_B := JStr [], mp_background := WHITE\<rparr>
                 else row_at ms j))"
proof -
  have "\<exists>s \<in> set (rev (collect_ids f)). responses s = None" using assms by simp
  then have "ids_loop (rev (collect_ids f)) None = Inl TypeError" by (rule ids_loop_unreadable)
  then show ?thesis by (simp add: updateMemberPoints_def Let_def row_at_clear)
qed

text \<open>One unreadable spreadsheet and a ledger of one entry: the entry loses name and total.\<close>

theorem unreadable_source_aborts_after_clearing_witness:
  "list_ex (\<lambda>s. responses s = None) (collect_ids \<lparr>folder_files = [unreadable_file], folder_subfolders = []\<rparr>)
   \<and> updateMemberPoints \<lparr>folder_files = [unreadable_file], folder_subfolders = []\<rparr> old_ledger =
       (Some TypeError,
        [\<lparr>mp_A = JStr [], mp_B = JStr [], mp_C = JStr ''ann@x.com'', mp_background = WHITE\<rparr>])"
  using unreadable_source_aborts_after_clearing
          [of "\<lparr>folder_files = [unreadable_file], folder_subfolders = []\<rparr>" old_ledger]
  by (simp add: collect_ids_def unreadable_file_def old_ledger_def clear_A3_B1000_def)

text \<open>
  C3 as stated fails: the run ends with an error, and the Member Points sheet is not what
  it was before the run.
\<close>

theorem ledger_cleared_before_failure:
  "fst (updateMemberPoints \<lparr>folder_files = [unreadable_file], folder_subfolders = []\<rparr> old_ledger) = Some TypeError
   \<and> snd (updateMemberPoints \<lparr>folder_files = [unreadable_file], folder_subfolders = []\<rparr> old_ledger) \<noteq> old_ledger"
  by (simp add: updateMemberPoints_def collect_ids_def unreadable_file_def old_ledger_def
        clear_A3_B1000_def getResponsesFromEvent_def)

section \<open>Validation of the corrections\<close>

text \<open>
  C7, as the code has it. When one of the two fields of \<^verbatim>\<open>fixEmail\<close>, \<^verbatim>\<open>fixName\<close> or
  \<^verbatim>\<open>deleteName\<close> is empty, the function writes ``One of the fields is empty'' into its
  error cell and nothing else: the spreadsheets and the Member Points sheet stay as they
  are, and no exception is thrown.
\<close>

theorem empty_field_rejected_without_writes:
  "(OLD_EMAIL_CELL (SHEET w) = [] \<or> NEW_EMAIL_CELL (SHEET w) = [] \<longrightarrow>
      fixEmail w = (None, w\<lparr>SHEET := (SHEET w)\<lparr>EMAIL_ERROR_CELL := ''One of the fields is empty''\<rparr>\<rparr>))
   \<and> (OLD_NAME_CELL (SHEET w) = [] \<or> NEW_NAME_CELL (SHEET w) = [] \<longrightarrow>
      fixName w = (None, w\<lparr>SHEET := (SHEET w)\<lparr>NAME_ERROR_CELL := ''One of the fields is empty''\<rparr>\<rparr>))
   \<and> (DEL_NAME_CELL (SHEET w) = [] \<or> DEL_EMAIL_CELL (SHEET w) = [] \<longrightarrow>
      deleteName w = (None, w\<lparr>SHEET := (SHEET w)\<lparr>DEL_ERROR_CELL := ''One of the fields is empty''\<rparr>\<rparr>))"
  by (simp add: fixEmail_def fixName_def deleteName_def Let_def)

text \<open>A world whose second field is empty in each of the three forms.\<close>

theorem empty_field_rejected_without_writes_witness:
  "NEW_EMAIL_CELL (SHEET empty_fields) = [] \<and> NEW_NAME_CELL (SHEET empty_fields) = []
   \<and> DEL_EMAIL_CELL (SHEET empty_fields) = []
   \<and> EMAIL_ERROR_CELL (SHEET (snd (fixEmail empty_fields))) = ''One of the fields is empty''
   \<and> SHEETS_FOLDER (snd (fixEmail empty_fields)) = SHEETS_FOLDER empty_fields
   \<and> memberSheet (snd (fixEmail empty_fields)) = memberSheet empty_fields
   \<and> NAME_ERROR_CELL (SHEET (snd (fixName empty_fields))) = ''One of the fields is empty''
   \<and> SHEETS_FOLDER (snd (fixName empty_fields)) = SHEETS_FOLDER empty_fields
   \<and> memberSheet (snd (fixName empty_fields)) = memberSheet empty_fields
   \<and> DEL_ERROR_CELL (SHEET (snd (deleteName empty_fields))) = ''One of the fields is empty''
   \<and> SHEETS_FOLDER (snd (deleteName empty_fields)) = SHEETS_FOLDER empty_fields
   \<and> memberSheet (snd (deleteName empty_fields)) = memberSheet empty_fields"
proof -
  have e: "NEW_EMAIL_CELL (SHEET empty_fields) = []" "NEW_NAME_CELL (SHEET empty_fields) = []"
    "DEL_EMAIL_CELL (SHEET empty_fields) = []"
    by (simp_all add: empty_fields_def blank_panel_def)
  from empty_field_rejected_without_writes [of empty_fields] e
  have "fixEmail empty_fields =
          (None, empty_fields\<lparr>SHEET := (SHEET empty_fields)\<lparr>EMAIL_ERROR_CELL := ''One of the fields is empty''\<rparr>\<rparr>)"
    "fixName empty_fields =
          (None, empty_fields\<lparr>SHEET := (SHEET empty_fields)\<lparr>NAME_ERROR_CELL := ''One of the fields is empty''\<rparr>\<rparr>)"
    "deleteName empty_fields =
          (None, empty_fields\<lparr>SHEET := (SHEET empty_fields)\<lparr>DEL_ERROR_CELL := ''One of the fields is empty''\<rparr>\<rparr>)"
    by simp_all
  with e show ?thesis by simp
qed

text \<open>
  C7 as stated fails for identical emails: \<^verbatim>\<open>fixEmail\<close> with the old email equal to the new
  one reports no error, rewrites the matching cells of the source with the lower-cased
  email and rewrites the Member Points sheet.
\<close>

theorem identical_emails_not_rejected:
  "toLowerCase (OLD_EMAIL_CELL (SHEET same_email)) = toLowerCase (NEW_EMAIL_CELL (SHEET same_email))
   \<and> fst (fixEmail same_email) = None
   \<and> EMAIL_ERROR_CELL (SHEET (snd (fixEmail same_email))) = []
   \<and> map responses (folder_files (SHEETS_FOLDER (snd (fixEmail same_email)))) =
       [Some [response_row ''Ann Lee'' ''ann@x.com'' Blank (Num 1)]]
   \<and> map responses (folder_files (SHEETS_FOLDER same_email)) =
       [Some [response_row ''Ann Lee'' ''Ann@x.com'' Blank (Num 1)]]
   \<and> memberSheet (snd (fixEmail same_email)) =
       [\<lparr>mp_A = JStr ''Ann Lee'', mp_B = JNum 1, mp_C = JStr ''ann@x.com'',
         mp_background = DEFAULT_MEMBER_COLOR\<rparr>]
   \<and> memberSheet same_email = []"
  by (simp add: fixEmail_def same_email_def ann_upper_def replaceEmailInSheet_def eval_defs)

section \<open>Deletion\<close>

text \<open>
  C2 fails on the code. Two adjacent rows of one source carry the name and the email to
  delete. \<^verbatim>\<open>deleteRow\<close> moves the second onto the position of the first, \<^verbatim>\<open>index++\<close> steps
  over it, and it stays in the source and in the recomputed ledger.
\<close>

theorem delete_skips_adjacent_record:
  "fst (deleteName delete_bob) = None
   \<and> map responses (folder_files (SHEETS_FOLDER (snd (deleteName delete_bob)))) =
       [Some [response_row ''Ann Lee'' ''ann@x.com'' Blank (Num 1),
              response_row ''Bob Smith'' ''bob@x.com'' (Num 2) Blank]]
   \<and> map mp_C (memberSheet (snd (deleteName delete_bob))) = [JStr ''ann@x.com'', JStr ''bob@x.com'']"
  by (simp add: deleteName_def delete_bob_def bob_twice_def deleteNameInSheet_def delete_loop.simps eval_defs)

section \<open>Point conservation\<close>




section \<open>Case of emails and names\<close>

text \<open>
  C10. Every entry that a run writes carries the email of a record of some source in lower
  case (it holds no upper-case letter), and the name of that record exactly as the
  source has it.
\<close>

theorem ledger_case:
  assumes ok: "list_all source_ok (collect_ids f)" and len: "length ms \<le> 998"
    and r: "r \<in> set (entries (snd (updateMemberPoints f ms)))"
  shows "\<exists>s \<in> set (collect_ids f). \<exists>rec \<in> set (source_records s).
           mp_C r = JStr (toLowerCase (resp_B rec))
           \<and> list_all (\<lambda>c. c \<notin> set ''ABCDEFGHIJKLMNOPQRSTUVWXYZ'') (toLowerCase (resp_B rec))
           \<and> mp_A r = JStr (resp_A rec)"
proof -
  from ledger_entry [OF ok len r] obtain k s rec where
    C: "mp_C r = JStr k"
    and s: "find (\<lambda>s. last_record k s \<noteq> None) (rev (collect_ids f)) = Some s"
    and rec: "last_record k s = Some rec" and A: "mp_A r = JStr (resp_A rec)"
    by blast
  have sin: "s \<in> set (collect_ids f)"
    using s by (auto simp add: find_Some_iff) (metis nth_mem set_rev length_rev)
  from last_record_SomeD [OF rec] have "rec \<in> set (source_records s)" "email_of rec = k" by simp_all
  with A C sin toLowerCase_no_upper [of "resp_B rec"] show ?thesis
    by (auto simp add: email_of_def)
qed

text \<open>The kickoff records \<^verbatim>\<open>Ann@x.com\<close>; the ledger holds \<^verbatim>\<open>ann@x.com\<close> and the names as written.\<close>

theorem ledger_case_witness:
  "list_all source_ok (collect_ids two_events) \<and> length old_ledger \<le> 998
   \<and> entries (snd (updateMemberPoints two_events old_ledger)) =
       [\<lparr>mp_A = JStr ''Ann L.'', mp_B = JNum 4, mp_C = JStr ''ann@x.com'',
          mp_background = ACTIVE_MEMBER_COLOR\<rparr>,
        \<lparr>mp_A = JStr ''Bob Smith'', mp_B = JNum 3, mp_C = JStr ''bob@x.com'',
          mp_background = ACTIVE_MEMBER_COLOR\<rparr>]
   \<and> list_ex (\<lambda>s. list_ex (\<lambda>rec.
          JStr ''bob@x.com'' = JStr (toLowerCase (resp_B rec))
          \<and> list_all (\<lambda>c. c \<notin> set ''ABCDEFGHIJKLMNOPQRSTUVWXYZ'') (toLowerCase (resp_B rec))
          \<and> JStr ''Bob Smith'' = JStr (resp_A rec)) (source_records s)) (collect_ids two_events)"
proof -
  have 1: "list_all source_ok (collect_ids two_events)"
    by (simp add: example_defs eval_defs)
  have 3: "length old_ledger \<le> 998" by (simp add: old_ledger_def)
  have 4: "entries (snd (updateMemberPoints two_events old_ledger)) =
       [\<lparr>mp_A = JStr ''Ann L.'', mp_B = JNum 4, mp_C = JStr ''ann@x.com'',
          mp_background = ACTIVE_MEMBER_COLOR\<rparr>,
        \<lparr>mp_A = JStr ''Bob Smith'', mp_B = JNum 3, mp_C = JStr ''bob@x.com'',
          mp_background = ACTIVE_MEMBER_COLOR\<rparr>]"
    by (simp add: example_defs eval_defs)
  have 5: "\<lparr>mp_A = JStr ''Bob Smith'', mp_B = JNum 3, mp_C = JStr ''bob@x.com'',
          mp_background = ACTIVE_MEMBER_COLOR\<rparr> \<in> set (entries (snd (updateMemberPoints two_events old_ledger)))"
    unfolding 4 by simp
  from ledger_case [OF 1 3 5] have "list_ex (\<lambda>s. list_ex (\<lambda>rec.
          JStr ''bob@x.com'' = JStr (toLowerCase (resp_B rec))
          \<and> list_all (\<lambda>c. c \<notin> set ''ABCDEFGHIJKLMNOPQRSTUVWXYZ'') (toLowerCase (resp_B rec))
          \<and> JStr ''Bob Smith'' = JStr (resp_A rec)) (source_records s)) (collect_ids two_events)"
    unfolding list_ex_iff by simp
  with 1 3 4 show ?thesis by blast
qed

section \<open>The merge rule\<close>

text \<open>
  C8, as the code has it. Sources are processed from the last enumerated to the first.
  The entry of an email carries the name of the first processed source that has a record
  with that email: a source processed later only adds points. Within one source the last
  record with the email counts, for the name and for the points: a later record of the
  same source replaces the earlier one. The total is the sum, over the sources, of the
  points of that last record.
\<close>

theorem first_seen_across_sources:
  assumes ok: "list_all source_ok (collect_ids f)" and len: "length ms \<le> 998"
    and r: "r \<in> set (entries (snd (updateMemberPoints f ms)))"
  shows "\<exists>k s rec. mp_C r = JStr k
     \<and> find (\<lambda>s. last_record k s \<noteq> None) (rev (collect_ids f)) = Some s
     \<and> last_record k s = Some rec
     \<and> mp_A r = JStr (resp_A rec)
     \<and> mp_B r = JNum (\<Sum>s\<leftarrow>collect_ids f.
                            case last_record k s of None \<Rightarrow> 0 | Some rec \<Rightarrow> attendance_points s rec)"
  using ok len r by (rule ledger_entry)

text \<open>Ann is in both events; the gala is processed first and gives the name.\<close>

theorem first_seen_across_sources_witness:
  "list_all source_ok (collect_ids two_events) \<and> length old_ledger \<le> 998
   \<and> hd (entries (snd (updateMemberPoints two_events old_ledger))) =
       \<lparr>mp_A = JStr ''Ann L.'', mp_B = JNum 4, mp_C = JStr ''ann@x.com'',
          mp_background = ACTIVE_MEMBER_COLOR\<rparr>
   \<and> find (\<lambda>s. last_record ''ann@x.com'' s \<noteq> None) (rev (collect_ids two_events)) = Some gala
   \<and> map_option resp_A (last_record ''ann@x.com'' gala) = Some ''Ann L.''
   \<and> (\<exists>k s rec. JStr ''ann@x.com'' = JStr k
     \<and> find (\<lambda>s. last_record k s \<noteq> None) (rev (collect_ids two_events)) = Some s
     \<and> last_record k s = Some rec
     \<and> JStr ''Ann L.'' = JStr (resp_A rec)
     \<and> JNum 4 = JNum (\<Sum>s\<leftarrow>collect_ids two_events.
                            case last_record k s of None \<Rightarrow> 0 | Some rec \<Rightarrow> attendance_points s rec))"
proof -
  have 1: "list_all source_ok (collect_ids two_events)"
    by (simp add: example_defs eval_defs)
  have 3: "length old_ledger \<le> 998" by (simp add: old_ledger_def)
  have 4: "entries (snd (updateMemberPoints two_events old_ledger)) =
       [\<lparr>mp_A = JStr ''Ann L.'', mp_B = JNum 4, mp_C = JStr ''ann@x.com'',
          mp_background = ACTIVE_MEMBER_COLOR\<rparr>,
        \<lparr>mp_A = JStr ''Bob Smith'', mp_B = JNum 3, mp_C = JStr ''bob@x.com'',
          mp_background = ACTIVE_MEMBER_COLOR\<rparr>]"
    by (simp add: example_defs eval_defs)
  have 5: "\<lparr>mp_A = JStr ''Ann L.'', mp_B = JNum 4, mp_C = JStr ''ann@x.com'',
          mp_background = ACTIVE_MEMBER_COLOR\<rparr> \<in> set (entries (snd (updateMemberPoints two_events old_ledger)))"
    unfolding 4 by simp
  have 6: "find (\<lambda>s. last_record ''ann@x.com'' s \<noteq> None) (rev (collect_ids two_events)) = Some gala"
    "map_option resp_A (last_record ''ann@x.com'' gala) = Some ''Ann L.''"
    by (simp_all add: example_defs eval_defs)
  from first_seen_across_sources [OF 1 3 5] 1 3 4 6 show ?thesis by simp
qed

text \<open>
  C8 as stated fails within one source: the second record with the same normalised email
  overwrites the name and replaces the points of the first.
\<close>

theorem later_record_of_same_source_overwrites:
  "map (\<lambda>r. (resp_A r, email_of r, attendance_points signed_in_twice r)) (source_records signed_in_twice) =
     [(''Alice'', ''al@x.com'', 1), (''Alicia'', ''al@x.com'', 5)]
   \<and> entries (snd (updateMemberPoints \<lparr>folder_files = [signed_in_twice], folder_subfolders = []\<rparr> [])) =
       [\<lparr>mp_A = JStr ''Alicia'', mp_B = JNum 5, mp_C = JStr ''al@x.com'',
          mp_background = ACTIVE_MEMBER_COLOR\<rparr>]"
  by (simp add: example_defs eval_defs)

section \<open>Order of the sources\<close>




section \<open>Lookup\<close>




section \<open>Merge on rename\<close>

text \<open>
  C6. Let the sources be readable and have both tabs, and let aggregation give the email
  \<open>a\<close> a total of \<open>p\<close> and the email \<open>b\<close> a total of \<open>q\<close>, no source holding records of
  both. Then \<^verbatim>\<open>fixEmail\<close> from \<open>a\<close> to \<open>b\<close> ends without an exception, and the Member Points
  sheet it leaves has exactly one entry for \<open>b\<close>, with total \<open>p + q\<close>, and no entry for
  \<open>a\<close>. With \<open>p = 2\<close> and \<open>q = 4\<close> the total is 6.
\<close>

theorem merge_on_rename:
  assumes old: "toLowerCase (OLD_EMAIL_CELL (SHEET w)) = a"
    and new: "toLowerCase (NEW_EMAIL_CELL (SHEET w)) = b"
    and ok: "list_all (\<lambda>s. source_ok s \<and> form_responses_1 s \<noteq> None) (collect_ids (SHEETS_FOLDER w))"
    and len: "length (memberSheet w) \<le> 998"
    and pa: "ledger_total (snd (updateMemberPoints (SHEETS_FOLDER w) (memberSheet w))) a = Some (JNum p)"
    and pb: "ledger_total (snd (updateMemberPoints (SHEETS_FOLDER w) (memberSheet w))) b = Some (JNum q)"
    and apart: "list_all (\<lambda>s. a \<notin> email_of ` set (source_records s)
                              \<or> b \<notin> email_of ` set (source_records s)) (collect_ids (SHEETS_FOLDER w))"
  shows "fst (fixEmail w) = None
       \<and> map mp_B (filter (\<lambda>r. mp_C r = JStr b) (entries (memberSheet (snd (fixEmail w))))) = [JNum (p + q)]
       \<and> filter (\<lambda>r. mp_C r = JStr a) (entries (memberSheet (snd (fixEmail w)))) = []"
proof -
  define f where "f = SHEETS_FOLDER w"
  define ms where "ms = memberSheet w"
  note pa' = pa [folded f_def ms_def] and pb' = pb [folded f_def ms_def]
  have ok0: "list_all source_ok (collect_ids f)" using ok by (simp add: list_all_iff f_def)
  have ne: "collect_ids f \<noteq> []"
    using pa' ledger_total_empty [OF _ len [folded ms_def], of f a] by auto
  have len': "length ms \<le> 998" using len by (simp add: ms_def)
  note lt = ledger_total_email [OF ok0 ne len']
  have ka: "a \<in> fst ` set (names (ledger_set f))" and va: "points_for (ledger_set f) a = p"
    using pa' unfolding lt by (auto split: if_splits)
  have kb: "b \<in> fst ` set (names (ledger_set f))" and vb: "points_for (ledger_set f) b = q"
    using pb' unfolding lt by (auto split: if_splits)
  note keys = ledger_set_facts(6) [OF ok0 ne]
  have okk: "\<And>s. s \<in> set (collect_ids f) \<Longrightarrow> source_ok s"
    using ok0 by (simp add: list_all_iff)
  from ka obtain sa where sa: "sa \<in> set (collect_ids f)" "a \<in> email_of ` set (source_records sa)"
    unfolding keys using sheet_info_keys [OF okk] by auto
  from kb obtain sb where sb: "sb \<in> set (collect_ids f)" "b \<in> email_of ` set (source_records sb)"
    unfolding keys using sheet_info_keys [OF okk] by auto
  have an: "a \<noteq> []" by (rule record_email_nonempty [OF sa(2)])
  have bn: "b \<noteq> []" by (rule record_email_nonempty [OF sb(2)])
  have ab: "a \<noteq> b"
  proof
    assume "a = b"
    moreover have "a \<notin> email_of ` set (source_records sa) \<or> b \<notin> email_of ` set (source_records sa)"
      using apart sa(1) by (simp add: list_all_iff f_def)
    ultimately show False using sa(2) by simp
  qed
  have bl: "toLowerCase b = b" using new toLowerCase_idem [of "NEW_EMAIL_CELL (SHEET w)"] by simp
  from renamed_catalogue [OF ok [folded f_def] bl bn, of a] obtain f' where
    ef: "each_file (replaceEmailInSheet b a) f = (None, f')"
    and ids': "collect_ids f' = map (renamed b a) (collect_ids f)"
    by blast
  have ok': "list_all source_ok (collect_ids f')"
    unfolding ids' using ok renamed_facts(2) [OF _ _ bl bn] by (simp add: list_all_iff f_def)
  have ne': "collect_ids f' \<noteq> []" unfolding ids' using ne by simp
  note run = fixEmail_run [OF old new an bn ef [unfolded f_def]
      entries_ledger_set(1) [OF ok' ne' len' , unfolded ms_def]]
  have keys': "fst ` set (names (ledger_set f')) =
      (\<lambda>k. if k = a then b else k) ` fst ` set (names (ledger_set f))"
    unfolding ledger_set_facts(6) [OF ok' ne'] keys ids'
    by (rule renamed_keys [OF ok [folded f_def] bl bn])
  have kb': "b \<in> fst ` set (names (ledger_set f'))" unfolding keys' using ka by force
  have ka': "a \<notin> fst ` set (names (ledger_set f'))" unfolding keys' using ab by auto
  have "points_for (ledger_set f') b =
        (\<Sum>s\<leftarrow>collect_ids f. points_for (sheet_info s) a) + (\<Sum>s\<leftarrow>collect_ids f. points_for (sheet_info s) b)"
    unfolding ledger_set_facts(4) [OF ok' ne'] ids'
    by (rule renamed_points [OF ok [folded f_def] bl bn ab apart [folded f_def]])
  then have pq: "points_for (ledger_set f') b = p + q"
    by (simp only: ledger_set_facts(4) [OF ok0 ne, symmetric] va vb)
  have wf': "wf_set (ledger_set f')" by (rule ledger_set_facts(2) [OF ok' ne'])
  have "js_get (points (ledger_set f')) b = JNum (points_for (ledger_set f') b)"
    by (rule wf_set_info_get(1) [OF wf' kb'])
  then have B: "mp_B (ledger_row (ledger_set f') b) = JNum (p + q)"
    by (simp add: ledger_row_def pq)
  note fe = filter_entries_email [OF ok' ne' len']
  have 2: "map mp_B (filter (\<lambda>r. mp_C r = JStr b) (entries (memberSheet (snd (fixEmail w))))) = [JNum (p + q)]"
    unfolding run(2) ms_def [symmetric] fe using kb' B by simp
  have 3: "filter (\<lambda>r. mp_C r = JStr a) (entries (memberSheet (snd (fixEmail w)))) = []"
    unfolding run(2) ms_def [symmetric] fe using ka' by simp
  from run(1) 2 3 show ?thesis by blast
qed

text \<open>
  \<^verbatim>\<open>Alice@x.com\<close> has 2 points from the workshop, \<^verbatim>\<open>alice2@x.com\<close> has 4 from the banquet;
  after the correction the ledger holds one entry, for \<^verbatim>\<open>alice2@x.com\<close>, with 6 points.
\<close>

theorem merge_on_rename_witness:
  "toLowerCase (OLD_EMAIL_CELL (SHEET two_addresses)) = ''alice@x.com''
   \<and> toLowerCase (NEW_EMAIL_CELL (SHEET two_addresses)) = ''alice2@x.com''
   \<and> list_all (\<lambda>s. source_ok s \<and> form_responses_1 s \<noteq> None) (collect_ids (SHEETS_FOLDER two_addresses))
   \<and> length (memberSheet two_addresses) \<le> 998
   \<and> ledger_total (snd (updateMemberPoints (SHEETS_FOLDER two_addresses) (memberSheet two_addresses)))
         ''alice@x.com'' = Some (JNum 2)
   \<and> ledger_total (snd (updateMemberPoints (SHEETS_FOLDER two_addresses) (memberSheet two_addresses)))
         ''alice2@x.com'' = Some (JNum 4)
   \<and> list_all (\<lambda>s. ''alice@x.com'' \<notin> email_of ` set (source_records s)
                    \<or> ''alice2@x.com'' \<notin> email_of ` set (source_records s))
         (collect_ids (SHEETS_FOLDER two_addresses))
   \<and> fst (fixEmail two_addresses) = None
   \<and> map mp_B (filter (\<lambda>r. mp_C r = JStr ''alice2@x.com'')
         (entries (memberSheet (snd (fixEmail two_addresses))))) = [JNum 6]
   \<and> filter (\<lambda>r. mp_C r = JStr ''alice@x.com'')
         (entries (memberSheet (snd (fixEmail two_addresses)))) = []"
proof -
  have 1: "toLowerCase (OLD_EMAIL_CELL (SHEET two_addresses)) = ''alice@x.com''"
    by (simp add: rename_defs eval_defs)
  have 2: "toLowerCase (NEW_EMAIL_CELL (SHEET two_addresses)) = ''alice2@x.com''"
    by (simp add: rename_defs eval_defs)
  have 3: "list_all (\<lambda>s. source_ok s \<and> form_responses_1 s \<noteq> None) (collect_ids (SHEETS_FOLDER two_addresses))"
    by (simp add: rename_defs example_defs eval_defs)
  have 4: "length (memberSheet two_addresses) \<le> 998"
    by (simp add: rename_defs)
  have 5: "ledger_total (snd (updateMemberPoints (SHEETS_FOLDER two_addresses) (memberSheet two_addresses)))
         ''alice@x.com'' = Some (JNum 2)"
    by (simp add: rename_defs example_defs eval_defs)
  have 6: "ledger_total (snd (updateMemberPoints (SHEETS_FOLDER two_addresses) (memberSheet two_addresses)))
         ''alice2@x.com'' = Some (JNum 4)"
    by (simp add: rename_defs example_defs eval_defs)
  have 7: "list_all (\<lambda>s. ''alice@x.com'' \<notin> email_of ` set (source_records s)
                    \<or> ''alice2@x.com'' \<notin> email_of ` set (source_records s))
         (collect_ids (SHEETS_FOLDER two_addresses))"
    by (simp add: rename_defs example_defs eval_defs)
  from merge_on_rename [OF 1 2 3 4 5 6 7] 1 2 3 4 5 6 7 show ?thesis by simp
qed

end
